theory Spec2Isabelle
  imports Complex_Main "HOL-Library.Log_Nat" "HOL-Library.Char_ord" "HOL-Library.List_Lexorder"
begin

section \<open>Data model (database/models.py, controller/basemodel.py)\<close>

text \<open>
  Every table of \<^verbatim>\<open>database/models.py\<close> is a record; a nullable column is an
  \<open>option\<close>. The \<^verbatim>\<open>created_at\<close> columns are filled by the database server and read by
  none of the operations below, so they are left out. A UUID is kept as its text.
  A \<^verbatim>\<open>datetime\<close> is an opaque instant: the operations only store and copy it.
\<close>

type_synonym uuid = string

datatype datetime = Datetime int

record Question =
  q_id :: int
  q_section_id :: "int option"
  q_question :: "string option"
  q_rating_3_text :: "string option"
  q_rating_neg3_text :: "string option"
  q_show_rating_scale :: bool
  q_subject :: "string option"

record UserAnswer =
  ua_id :: int
  ua_question_id :: "int option"
  ua_user_id :: "uuid option"
  ua_answer :: "string option"
  ua_rating :: "int option"
  ua_feedback :: "string option"
  ua_feedback_generated :: bool
  ua_submitted_at :: "datetime option"

record User =
  u_id :: int
  u_email :: "string option"
  u_name :: "string option"
  u_hashed_password :: "string option"
  u_company_id :: "int option"

record Profile =
  p_id :: uuid
  p_email :: "string option"
  p_name :: "string option"
  p_company_id :: "int option"

record Company =
  c_id :: int
  c_name :: "string option"

record Section =
  s_id :: int
  s_label :: "string option"
  s_title :: "string option"
  s_company_id :: "int option"

text \<open>
  The persistence store: one list of rows per table, in the order in which the database
  returns them, and the sequence that issues the primary keys of \<^verbatim>\<open>user_answers\<close>
  (the last value handed out).
\<close>

record db =
  companies :: "Company list"
  sections :: "Section list"
  questions :: "Question list"
  user_answers :: "UserAnswer list"
  users :: "User list"
  profiles :: "Profile list"
  user_answers_seq :: int

text \<open>The request bodies \<^verbatim>\<open>AnswerSubmit\<close> and \<^verbatim>\<open>AnswerCreate\<close>.\<close>

record AnswerSubmit =
  sub_question_id :: int
  sub_answer :: string
  sub_rating :: "int option"
  sub_submitted_at :: "string option"

record AnswerCreate =
  ac_answer :: string
  ac_rating :: "int option"

text \<open>
  \<^verbatim>\<open>get_current_user\<close> returns either a \<^verbatim>\<open>Profile\<close> or a \<^verbatim>\<open>User\<close>; the handlers
  branch on \<^verbatim>\<open>isinstance(current_user, User)\<close>.
\<close>

datatype identity = IsProfile Profile | IsUser User

datatype http_error = HTTPException int string

section \<open>Answer submission (controller/user.py)\<close>

subsection \<open>Resolving \<^verbatim>\<open>submitted_at\<close>\<close>

text \<open>\<^verbatim>\<open>s.replace('Z', '+00:00')\<close>: every occurrence of the letter is replaced.\<close>

definition replace_Z :: "string \<Rightarrow> string" where
  "replace_Z s = concat (map (\<lambda>c. if c = CHR ''Z'' then ''+00:00'' else [c]) s)"

text \<open>
  \<^verbatim>\<open>datetime.fromisoformat\<close> belongs to the Python library; it is a parameter
  \<open>fromisoformat\<close>, with \<open>None\<close> for the exception it raises on a string it rejects.
  The server clock is a parameter too: \<open>now k\<close> is what the \<open>k\<close>-th call of
  \<^verbatim>\<open>datetime.now()\<close> of the request returns. \<open>resolve_submitted_at\<close> is lines 197-210 of
  \<^verbatim>\<open>submit_answers\<close>; it returns the timestamp and the number of clock readings made so far.
  In Python the empty string is falsy, so it takes the \<^verbatim>\<open>else\<close> branch as \<^verbatim>\<open>None\<close> does.
\<close>

definition resolve_submitted_at ::
  "(string \<Rightarrow> datetime option) \<Rightarrow> (nat \<Rightarrow> datetime) \<Rightarrow> nat \<Rightarrow> string option \<Rightarrow> datetime \<times> nat"
where
  "resolve_submitted_at fromisoformat now k sa =
     (case sa of
        None \<Rightarrow> (now k, Suc k)
      | Some s \<Rightarrow>
          if s = [] then (now k, Suc k)
          else (case fromisoformat (replace_Z s) of
                  Some d \<Rightarrow> (d, k)
                | None \<Rightarrow>
                    (case fromisoformat s of
                       Some d \<Rightarrow> (d, k)
                     | None \<Rightarrow> (now k, Suc k))))"

subsection \<open>The batch endpoint \<^verbatim>\<open>submit_answers\<close>\<close>

text \<open>
  \<^verbatim>\<open>db.query(...).filter(...).first()\<close> is \<^const>\<open>find\<close> on the table. Assigning to the
  attributes of the row object it returned rewrites that row where it stands.
\<close>

fun update_first :: "('a \<Rightarrow> bool) \<Rightarrow> ('a \<Rightarrow> 'a) \<Rightarrow> 'a list \<Rightarrow> 'a list" where
  "update_first P f [] = []"
| "update_first P f (x # xs) = (if P x then f x # xs else x # update_first P f xs)"

definition answer_of :: "uuid \<Rightarrow> int \<Rightarrow> UserAnswer \<Rightarrow> bool" where
  "answer_of user_id question_id a \<longleftrightarrow>
     ua_user_id a = Some user_id \<and> ua_question_id a = Some question_id"

text \<open>
  The state of the loop over the batch: the store, \<^verbatim>\<open>saved_answers\<close> as
  (question_id, answer_id) pairs, and the number of clock readings made.
\<close>

type_synonym submit_state = "db \<times> (int \<times> int) list \<times> nat"

definition submit_one ::
  "(string \<Rightarrow> datetime option) \<Rightarrow> (nat \<Rightarrow> datetime) \<Rightarrow> uuid \<Rightarrow> submit_state \<Rightarrow> AnswerSubmit
     \<Rightarrow> submit_state"
where
  "submit_one fromisoformat now user_id st answer_data =
     (case st of (d, saved_answers, k) \<Rightarrow>
        (case find (\<lambda>q. q_id q = sub_question_id answer_data) (questions d) of
           None \<Rightarrow> (d, saved_answers, k)
         | Some db_question \<Rightarrow>
             (case resolve_submitted_at fromisoformat now k (sub_submitted_at answer_data) of
                (submitted_at, k') \<Rightarrow>
                  (case find (answer_of user_id (sub_question_id answer_data)) (user_answers d) of
                     Some db_answer \<Rightarrow>
                       (d\<lparr>user_answers :=
                            update_first (answer_of user_id (sub_question_id answer_data))
                              (\<lambda>a. a\<lparr>ua_answer := Some (sub_answer answer_data),
                                      ua_rating := sub_rating answer_data,
                                      ua_submitted_at := Some submitted_at\<rparr>)
                              (user_answers d)\<rparr>,
                        saved_answers @ [(sub_question_id answer_data, ua_id db_answer)],
                        k')
                   | None \<Rightarrow>
                       (let answer_id = user_answers_seq d + 1;
                            db_answer =
                              \<lparr>ua_id = answer_id,
                               ua_question_id = Some (sub_question_id answer_data),
                               ua_user_id = Some user_id,
                               ua_answer = Some (sub_answer answer_data),
                               ua_rating = sub_rating answer_data,
                               ua_feedback = None,
                               ua_feedback_generated = False,
                               ua_submitted_at = Some submitted_at\<rparr>
                        in (d\<lparr>user_answers := user_answers d @ [db_answer],
                               user_answers_seq := answer_id\<rparr>,
                            saved_answers @ [(sub_question_id answer_data, answer_id)],
                            k'))))))"

fun submit_loop ::
  "(string \<Rightarrow> datetime option) \<Rightarrow> (nat \<Rightarrow> datetime) \<Rightarrow> uuid \<Rightarrow> submit_state
     \<Rightarrow> AnswerSubmit list \<Rightarrow> submit_state"
where
  "submit_loop fromisoformat now user_id st [] = st"
| "submit_loop fromisoformat now user_id st (answer_data # rest) =
     submit_loop fromisoformat now user_id
       (submit_one fromisoformat now user_id st answer_data) rest"

text \<open>The response of the batch endpoint: the number in the message and the pairs.\<close>

record submit_response =
  resp_saved_count :: nat
  resp_answers :: "(int \<times> int) list"

definition submit_answers ::
  "(string \<Rightarrow> datetime option) \<Rightarrow> (nat \<Rightarrow> datetime) \<Rightarrow> AnswerSubmit list \<Rightarrow> identity \<Rightarrow> db
     \<Rightarrow> http_error + (submit_response \<times> db)"
where
  "submit_answers fromisoformat now batch current_user d =
     (case current_user of
        IsUser u \<Rightarrow> Inl (HTTPException 400 ''Please use Profile account to submit answers'')
      | IsProfile p \<Rightarrow>
          (case submit_loop fromisoformat now (p_id p) (d, [], 0) batch of
             (d', saved_answers, k) \<Rightarrow>
               Inr (\<lparr>resp_saved_count = length saved_answers, resp_answers = saved_answers\<rparr>, d')))"

subsection \<open>The single-question endpoint \<^verbatim>\<open>submit_answer\<close>\<close>

record submit_answer_response =
  sar_answer_id :: int
  sar_rating :: "int option"
  sar_submitted_at :: "datetime option"

definition submit_answer ::
  "(nat \<Rightarrow> datetime) \<Rightarrow> int \<Rightarrow> AnswerCreate \<Rightarrow> identity \<Rightarrow> db
     \<Rightarrow> http_error + (submit_answer_response \<times> db)"
where
  "submit_answer now question_id answer current_user d =
     (case find (\<lambda>q. q_id q = question_id) (questions d) of
        None \<Rightarrow> Inl (HTTPException 404 ''Question not found'')
      | Some db_question \<Rightarrow>
          (case current_user of
             IsUser u \<Rightarrow> Inl (HTTPException 400 ''Please use Profile account to submit answers'')
           | IsProfile p \<Rightarrow>
               (case find (answer_of (p_id p) question_id) (user_answers d) of
                  Some db_answer \<Rightarrow>
                    Inr (\<lparr>sar_answer_id = ua_id db_answer,
                          sar_rating = ac_rating answer,
                          sar_submitted_at = Some (now 0)\<rparr>,
                         d\<lparr>user_answers :=
                             update_first (answer_of (p_id p) question_id)
                               (\<lambda>a. a\<lparr>ua_answer := Some (ac_answer answer),
                                       ua_rating := ac_rating answer,
                                       ua_submitted_at := Some (now 0)\<rparr>)
                               (user_answers d)\<rparr>)
                | None \<Rightarrow>
                    (let answer_id = user_answers_seq d + 1;
                         db_answer =
                           \<lparr>ua_id = answer_id,
                            ua_question_id = Some question_id,
                            ua_user_id = Some (p_id p),
                            ua_answer = Some (ac_answer answer),
                            ua_rating = ac_rating answer,
                            ua_feedback = None,
                            ua_feedback_generated = False,
                            ua_submitted_at = Some (now 0)\<rparr>
                     in Inr (\<lparr>sar_answer_id = answer_id,
                              sar_rating = ac_rating answer,
                              sar_submitted_at = Some (now 0)\<rparr>,
                             d\<lparr>user_answers := user_answers d @ [db_answer],
                               user_answers_seq := answer_id\<rparr>)))))"

subsection \<open>Properties of the answer table used below\<close>

text \<open>
  The data model's invariant: no two rows of \<^verbatim>\<open>user_answers\<close> carry the same
  (user, question) pair. Rows whose user or question is NULL belong to no pair.
\<close>

definition one_answer_per_pair :: "UserAnswer list \<Rightarrow> bool" where
  "one_answer_per_pair rows \<longleftrightarrow>
     distinct (map (\<lambda>a. (ua_user_id a, ua_question_id a))
                [a \<leftarrow> rows. ua_user_id a \<noteq> None \<and> ua_question_id a \<noteq> None])"

definition question_exists :: "db \<Rightarrow> int \<Rightarrow> bool" where
  "question_exists d question_id \<longleftrightarrow> find (\<lambda>q. q_id q = question_id) (questions d) \<noteq> None"

text \<open>
  All columns of an answer row except \<^verbatim>\<open>answer\<close>, \<^verbatim>\<open>rating\<close> and \<^verbatim>\<open>submitted_at\<close>.
\<close>

definition frame :: "UserAnswer \<Rightarrow> int \<times> uuid option \<times> int option \<times> string option \<times> bool" where
  "frame a = (ua_id a, ua_user_id a, ua_question_id a, ua_feedback a, ua_feedback_generated a)"

text \<open>
  \<open>keeps_rows rows rows'\<close>: the table \<open>rows'\<close> still has every row of \<open>rows\<close> at its
  place with the same \<^const>\<open>frame\<close>, and every row after them has no feedback.
\<close>

definition keeps_rows :: "UserAnswer list \<Rightarrow> UserAnswer list \<Rightarrow> bool" where
  "keeps_rows rows rows' \<longleftrightarrow>
     length rows \<le> length rows' \<and>
     map frame (take (length rows) rows') = map frame rows \<and>
     (\<forall>a \<in> set (drop (length rows) rows'). ua_feedback a = None \<and> \<not> ua_feedback_generated a)"

text \<open>Every reported (question_id, answer_id) pair names a stored row of the user.\<close>

definition saved_rows :: "uuid \<Rightarrow> UserAnswer list \<Rightarrow> (int \<times> int) list \<Rightarrow> bool" where
  "saved_rows u rows saved \<longleftrightarrow>
     (\<forall>(question_id, answer_id) \<in> set saved.
        \<exists>a \<in> set rows. ua_id a = answer_id \<and> answer_of u question_id a)"

section \<open>Python numbers\<close>

text \<open>
  A Python \<^verbatim>\<open>float\<close> is an IEEE 754 binary64 number; it is modelled by its exact value,
  a rational. \<open>binary64 x\<close> is the float nearest to the rational \<open>x\<close>, ties going to the
  even significand: with \<open>e\<close> the exponent of the last place of \<open>x\<close> (53 significant
  bits, and not below the subnormal exponent \<open>-1074\<close>), \<open>x\<close> is rounded to a multiple
  of \<open>2\<^sup>e\<close>. Overflow to infinity is not modelled: every value below is at most 100 in
  magnitude.
\<close>

definition pow2 :: "int \<Rightarrow> rat" where
  "pow2 e = (if 0 \<le> e then 2 ^ nat e else 1 / 2 ^ nat (- e))"

text \<open>For \<open>x > 0\<close>, \<open>floor_log2 x\<close> is the integer \<open>e\<close> with \<open>2\<^sup>e \<le> x < 2\<^sup>e\<^sup>+\<^sup>1\<close>.\<close>

definition floor_log2 :: "rat \<Rightarrow> int" where
  "floor_log2 x =
     (let e = bitlen (fst (quotient_of x)) - bitlen (snd (quotient_of x))
      in if pow2 e \<le> x then e else e - 1)"

definition round_half_even :: "rat \<Rightarrow> int" where
  "round_half_even x =
     (let f = \<lfloor>x\<rfloor>; r = x - of_int f
      in if r < 1 / 2 then f else if 1 / 2 < r then f + 1 else if even f then f else f + 1)"

definition binary64 :: "rat \<Rightarrow> rat" where
  "binary64 x =
     (if x = 0 then 0
      else let e = max (floor_log2 \<bar>x\<bar> - 52) (- 1074)
           in of_int (round_half_even (x / pow2 e)) * pow2 e)"

text \<open>
  \<^verbatim>\<open>round(x, ndigits)\<close> on a float: the exact value of \<open>x\<close> is rounded to \<open>ndigits\<close>
  decimals, ties to even, and the decimal is converted back to the nearest float.
\<close>

definition py_round :: "rat \<Rightarrow> nat \<Rightarrow> rat" where
  "py_round x ndigits = binary64 (of_int (round_half_even (x * 10 ^ ndigits)) / 10 ^ ndigits)"

text \<open>
  The floor of the square root of an integer, and the correctly rounded square root of a
  rational as a float: with \<open>u\<close> the unit in the last place of the root, the root lies
  between \<open>m * u\<close> and \<open>(m + 1) * u\<close>, and is compared with the midpoint.
\<close>

function isqrt :: "int \<Rightarrow> int" where
  "isqrt n = (if n \<le> 0 then 0
              else let r = 2 * isqrt (n div 4) in if (r + 1) * (r + 1) \<le> n then r + 1 else r)"
  by pat_completeness auto
termination
  by (relation "measure nat") auto

definition float_sqrt :: "rat \<Rightarrow> rat" where
  "float_sqrt x =
     (if x \<le> 0 then 0
      else let u = pow2 (floor_log2 x div 2 - 52);
               y = x / (u * u);
               m = isqrt \<lfloor>y\<rfloor>;
               h = (of_int m + 1 / 2) * (of_int m + 1 / 2)
           in of_int (if y < h then m else if h < y then m + 1 else if even m then m else m + 1) * u)"

text \<open>
  A number that is either a Python \<^verbatim>\<open>int\<close> or a \<^verbatim>\<open>float\<close>, and its value.
  \<^verbatim>\<open>round(n, 2)\<close> returns an \<^verbatim>\<open>int\<close> unchanged.
\<close>

datatype pynum = PyInt int | PyFloat rat

fun num_value :: "pynum \<Rightarrow> rat" where
  "num_value (PyInt i) = of_int i"
| "num_value (PyFloat x) = x"

fun round_num :: "pynum \<Rightarrow> nat \<Rightarrow> pynum" where
  "round_num (PyInt i) ndigits = PyInt i"
| "round_num (PyFloat x) ndigits = PyFloat (py_round x ndigits)"

text \<open>
  \<^verbatim>\<open>statistics.mean\<close> on a non-empty list of integers: the sum and the quotient are
  exact; an integral mean is returned as an \<^verbatim>\<open>int\<close>, any other as the nearest float.
  On an empty list it raises \<^verbatim>\<open>StatisticsError\<close> (\<open>None\<close>).
\<close>

definition mean :: "int list \<Rightarrow> pynum option" where
  "mean data =
     (if data = [] then None
      else let total = sum_list data; n = int (length data)
           in if total mod n = 0 then Some (PyInt (total div n))
              else Some (PyFloat (binary64 (of_int total / of_int n))))"

text \<open>
  \<^verbatim>\<open>statistics.stdev\<close> on integers: the sum of the squared deviations from the mean is
  exact, it is divided by \<open>n - 1\<close>, and the square root of that fraction is returned
  correctly rounded (\<^verbatim>\<open>_float_sqrt_of_frac\<close>, CPython 3.11 and later). With fewer than two
  data points it raises \<^verbatim>\<open>StatisticsError\<close> (\<open>None\<close>).
\<close>

definition stdev :: "int list \<Rightarrow> rat option" where
  "stdev data =
     (if length data < 2 then None
      else let n = int (length data);
               total = sum_list data;
               ss = (of_int (n * sum_list (map (\<lambda>x. x * x) data) - total * total) :: rat) / of_int n
           in Some (float_sqrt (ss / of_int (n - 1))))"

section \<open>Visible sections and questions\<close>

text \<open>
  \<^verbatim>\<open>filter(or_(Section.company_id == company_id, Section.company_id.is_(None)))\<close>, as in
  \<^verbatim>\<open>get_question\<close> and in \<^verbatim>\<open>get_users_by_company\<close>.
\<close>

definition company_or_global_sections :: "int \<Rightarrow> db \<Rightarrow> Section list" where
  "company_or_global_sections company_id d =
     [s \<leftarrow> sections d. s_company_id s = Some company_id \<or> s_company_id s = None]"

text \<open>
  \<^verbatim>\<open>order_by(Section.label)\<close>: ascending by label, rows with a NULL label last (the
  PostgreSQL default). Strings are compared character by character; the collation of the
  database only changes the order, not which rows are returned.
\<close>

definition order_by_label :: "Section list \<Rightarrow> Section list" where
  "order_by_label rows =
     sort_key (\<lambda>s. case s_label s of Some l \<Rightarrow> l | None \<Rightarrow> []) [s \<leftarrow> rows. s_label s \<noteq> None]
     @ [s \<leftarrow> rows. s_label s = None]"

text \<open>\<^verbatim>\<open>x or ""\<close> on an optional string.\<close>

definition or_empty :: "string option \<Rightarrow> string" where
  "or_empty x = (case x of None \<Rightarrow> [] | Some s \<Rightarrow> s)"

subsection \<open>\<^verbatim>\<open>get_question\<close> (controller/user.py)\<close>

record question_view =
  qv_question_id :: int
  qv_question :: string
  qv_rating_3_text :: string
  qv_rating_neg3_text :: string
  qv_show_rating_scale :: bool
  qv_answer :: "string option"
  qv_rating :: "int option"

record section_view =
  sv_section_id :: int
  sv_label :: string
  sv_title :: string
  sv_questions :: "question_view list"

text \<open>
  \<^verbatim>\<open>{a.question_id: a for a in answers}.get(question.id)\<close>: of several rows with the
  same key the dictionary keeps the last.
\<close>

definition dict_get :: "UserAnswer list \<Rightarrow> int \<Rightarrow> UserAnswer option" where
  "dict_get answers' question_id =
     (case [a \<leftarrow> answers'. ua_question_id a = Some question_id] of
        [] \<Rightarrow> None
      | a # as \<Rightarrow> Some (last (a # as)))"

definition identity_company_id :: "identity \<Rightarrow> int option" where
  "identity_company_id current_user =
     (case current_user of IsUser u \<Rightarrow> u_company_id u | IsProfile p \<Rightarrow> p_company_id p)"

definition get_question_sections :: "identity \<Rightarrow> db \<Rightarrow> Section list" where
  "get_question_sections current_user d =
     (case identity_company_id current_user of
        Some company_id \<Rightarrow> order_by_label (company_or_global_sections company_id d)
      | None \<Rightarrow> order_by_label (sections d))"

definition get_question :: "identity \<Rightarrow> db \<Rightarrow> section_view list" where
  "get_question current_user d =
     map (\<lambda>section.
            let questions' = [q \<leftarrow> questions d. q_section_id q = Some (s_id section)];
                answers' =
                  (case current_user of
                     IsUser u \<Rightarrow> []
                   | IsProfile p \<Rightarrow>
                       [a \<leftarrow> user_answers d.
                          ua_user_id a = Some (p_id p) \<and>
                          (case ua_question_id a of
                             None \<Rightarrow> False
                           | Some i \<Rightarrow> i \<in> set (map q_id questions'))])
            in \<lparr>sv_section_id = s_id section,
                sv_label = or_empty (s_label section),
                sv_title = or_empty (s_title section),
                sv_questions =
                  map (\<lambda>question.
                         let answer = dict_get answers' (q_id question)
                         in \<lparr>qv_question_id = q_id question,
                             qv_question = or_empty (q_question question),
                             qv_rating_3_text = or_empty (q_rating_3_text question),
                             qv_rating_neg3_text = or_empty (q_rating_neg3_text question),
                             qv_show_rating_scale = q_show_rating_scale question,
                             qv_answer = (case answer of None \<Rightarrow> None | Some a \<Rightarrow> ua_answer a),
                             qv_rating = (case answer of None \<Rightarrow> None | Some a \<Rightarrow> ua_rating a)\<rparr>)
                      questions'\<rparr>)
         (get_question_sections current_user d)"

section \<open>Completion accounting: \<^verbatim>\<open>get_users_by_company\<close> (controller/admin.py)\<close>

text \<open>
  \<^verbatim>\<open>str.strip()\<close> removes leading and trailing whitespace. A character stands for the
  code point of the same number; the whitespace code points below 256 are listed, code
  points from 256 on are outside the model.
\<close>

definition is_space :: "char \<Rightarrow> bool" where
  "is_space c \<longleftrightarrow>
     of_char c \<in> {9, 10, 11, 12, 13, 28, 29, 30, 31, 32, 133, 160 :: nat}"

definition strip :: "string \<Rightarrow> string" where
  "strip s = rev (dropWhile is_space (rev (dropWhile is_space s)))"

definition has_rating :: "UserAnswer \<Rightarrow> bool" where
  "has_rating answer \<longleftrightarrow> ua_rating answer \<noteq> None"

text \<open>The truth value of \<^verbatim>\<open>answer.answer and answer.answer.strip() != ""\<close>.\<close>

definition has_answer_text :: "UserAnswer \<Rightarrow> bool" where
  "has_answer_text answer \<longleftrightarrow>
     (case ua_answer answer of None \<Rightarrow> False | Some s \<Rightarrow> s \<noteq> [] \<and> strip s \<noteq> [])"

definition is_cant_answer :: "UserAnswer \<Rightarrow> bool" where
  "is_cant_answer answer \<longleftrightarrow>
     has_rating answer \<and> ua_rating answer = Some 0 \<and>
     (case ua_answer answer of None \<Rightarrow> True | Some s \<Rightarrow> s = [] \<or> strip s = [])"

definition is_complete :: "UserAnswer \<Rightarrow> bool" where
  "is_complete answer \<longleftrightarrow>
     is_cant_answer answer \<or>
     (has_rating answer \<and> ua_rating answer \<noteq> Some 0 \<and> has_answer_text answer)"

text \<open>
  The loop over the questions, which leaves at the first question without an answer or
  with an incomplete one. \<^verbatim>\<open>next((a for a in user_answers if ...), None)\<close> is \<^const>\<open>find\<close>.
\<close>

fun all_complete :: "UserAnswer list \<Rightarrow> Question list \<Rightarrow> bool" where
  "all_complete answers' [] = True"
| "all_complete answers' (question # rest) =
     (case find (\<lambda>a. ua_question_id a = Some (q_id question)) answers' of
        None \<Rightarrow> False
      | Some answer \<Rightarrow> if \<not> is_complete answer then False else all_complete answers' rest)"

text \<open>
  \<^verbatim>\<open>round((answered_count / total_questions) * 100, 1)\<close>: the quotient of the two
  integers is a float, the product with 100 is a float, and that float is rounded.
\<close>

definition completion_percentage :: "nat \<Rightarrow> nat \<Rightarrow> rat" where
  "completion_percentage answered_count total_questions =
     (if total_questions > 0
      then py_round (binary64 (binary64 (of_nat answered_count / of_nat total_questions) * 100)) 1
      else 0)"

record user_completion =
  uc_user_id :: uuid
  uc_email :: "string option"
  uc_name :: "string option"
  uc_company_id :: "int option"
  uc_total_questions :: nat
  uc_answered_count :: nat
  uc_completion_percentage :: rat
  uc_completely_answered :: bool

text \<open>
  The body of the loop over the profiles. \<^verbatim>\<open>set([...])\<close> becomes \<^const>\<open>remdups\<close>: the
  length of the comprehension over the set does not depend on the order of its elements.
\<close>

definition user_completion_of :: "Question list \<Rightarrow> db \<Rightarrow> Profile \<Rightarrow> user_completion" where
  "user_completion_of questions' d profile =
     (let total_questions = length questions';
          user_answers' = [a \<leftarrow> user_answers d. ua_user_id a = Some (p_id profile)];
          answered_question_ids = remdups (map ua_question_id user_answers');
          answered_count =
            length [qid \<leftarrow> answered_question_ids. qid \<in> set (map (\<lambda>q. Some (q_id q)) questions')];
          completely_answered =
            (if total_questions > 0 then all_complete user_answers' questions' else True)
      in \<lparr>uc_user_id = p_id profile,
          uc_email = p_email profile,
          uc_name = p_name profile,
          uc_company_id = p_company_id profile,
          uc_total_questions = total_questions,
          uc_answered_count = answered_count,
          uc_completion_percentage = completion_percentage answered_count total_questions,
          uc_completely_answered = (completely_answered \<and> answered_count = total_questions)\<rparr>)"

text \<open>The questions of the company: those of its sections and of the global sections.\<close>

definition company_questions :: "int \<Rightarrow> db \<Rightarrow> Question list" where
  "company_questions company_id d =
     (let section_ids = map s_id (company_or_global_sections company_id d)
      in if section_ids \<noteq> []
         then [q \<leftarrow> questions d.
                 case q_section_id q of None \<Rightarrow> False | Some i \<Rightarrow> i \<in> set section_ids]
         else [])"

record users_by_company =
  ubc_company_id :: int
  ubc_company_name :: "string option"
  ubc_users :: "user_completion list"

definition get_users_by_company :: "int \<Rightarrow> db \<Rightarrow> http_error + users_by_company" where
  "get_users_by_company company_id d =
     (case find (\<lambda>c. c_id c = company_id) (companies d) of
        None \<Rightarrow> Inl (HTTPException 404 ''Company not found'')
      | Some company \<Rightarrow>
          Inr \<lparr>ubc_company_id = company_id,
               ubc_company_name = c_name company,
               ubc_users =
                 map (user_completion_of (company_questions company_id d) d)
                   [p \<leftarrow> profiles d. p_company_id p = Some company_id]\<rparr>)"

section \<open>Aggregate reporting (controller/admin.py)\<close>

subsection \<open>\<^verbatim>\<open>get_questions_by_company\<close>\<close>

text \<open>\<^verbatim>\<open>[a.rating for a in answers if a.rating is not None]\<close>\<close>

definition present_ratings :: "UserAnswer list \<Rightarrow> int list" where
  "present_ratings answers' = concat (map (\<lambda>a. case ua_rating a of None \<Rightarrow> [] | Some r \<Rightarrow> [r]) answers')"

text \<open>\<^verbatim>\<open>round(mean(ratings), 2) if ratings else None\<close>\<close>

definition avg_rating :: "int list \<Rightarrow> pynum option" where
  "avg_rating ratings =
     (if ratings \<noteq> [] then map_option (\<lambda>m. round_num m 2) (mean ratings) else None)"

text \<open>\<^verbatim>\<open>round(stdev(ratings), 2) if len(ratings) > 1 else None\<close>\<close>

definition std_dev :: "int list \<Rightarrow> rat option" where
  "std_dev ratings =
     (if length ratings > 1 then map_option (\<lambda>s. py_round s 2) (stdev ratings) else None)"

record answer_view =
  av_answer_id :: int
  av_answer :: "string option"
  av_feedback :: "string option"
  av_rating :: "int option"
  av_user_id :: "uuid option"
  av_email :: "string option"
  av_user_name :: "string option"
  av_submitted_at :: "datetime option"

record question_stats =
  qs_question_id :: int
  qs_subject :: "string option"
  qs_question :: string
  qs_section_id :: "int option"
  qs_rating_3_text :: "string option"
  qs_rating_neg3_text :: "string option"
  qs_show_rating_scale :: bool
  qs_avg_rating :: "pynum option"
  qs_std_dev :: "rat option"
  qs_answers :: "answer_view list"

record section_stats =
  ss_section_id :: int
  ss_label :: string
  ss_title :: string
  ss_company_id :: "int option"
  ss_questions :: "question_stats list"

text \<open>
  The e-mail address and the name of an answer come from the profile of its user. The
  fallback to the \<^verbatim>\<open>users\<close> table compares an integer key with a UUID and finds nothing.
\<close>

definition answer_view_of :: "db \<Rightarrow> UserAnswer \<Rightarrow> answer_view" where
  "answer_view_of d a =
     (let profile = (case ua_user_id a of
                       None \<Rightarrow> None
                     | Some u \<Rightarrow> find (\<lambda>p. p_id p = u) (profiles d))
      in \<lparr>av_answer_id = ua_id a,
          av_answer = ua_answer a,
          av_feedback = ua_feedback a,
          av_rating = ua_rating a,
          av_user_id = ua_user_id a,
          av_email = (case profile of None \<Rightarrow> None | Some p \<Rightarrow> p_email p),
          av_user_name = (case profile of None \<Rightarrow> None | Some p \<Rightarrow> p_name p),
          av_submitted_at = ua_submitted_at a\<rparr>)"

definition question_stats_of :: "db \<Rightarrow> Question \<Rightarrow> question_stats" where
  "question_stats_of d question =
     (let answers' = [a \<leftarrow> user_answers d. ua_question_id a = Some (q_id question)];
          ratings = present_ratings answers'
      in \<lparr>qs_question_id = q_id question,
          qs_subject = q_subject question,
          qs_question = or_empty (q_question question),
          qs_section_id = q_section_id question,
          qs_rating_3_text = q_rating_3_text question,
          qs_rating_neg3_text = q_rating_neg3_text question,
          qs_show_rating_scale = q_show_rating_scale question,
          qs_avg_rating = avg_rating ratings,
          qs_std_dev = std_dev ratings,
          qs_answers = map (answer_view_of d) answers'\<rparr>)"

definition get_questions_by_company :: "int \<Rightarrow> db \<Rightarrow> http_error + section_stats list" where
  "get_questions_by_company company_id d =
     (case find (\<lambda>c. c_id c = company_id) (companies d) of
        None \<Rightarrow> Inl (HTTPException 404 ''Company not found'')
      | Some company \<Rightarrow>
          Inr (map (\<lambda>section.
                      \<lparr>ss_section_id = s_id section,
                       ss_label = or_empty (s_label section),
                       ss_title = or_empty (s_title section),
                       ss_company_id = s_company_id section,
                       ss_questions =
                         map (question_stats_of d)
                           [q \<leftarrow> questions d. q_section_id q = Some (s_id section)]\<rparr>)
                 (order_by_label [s \<leftarrow> sections d. s_company_id s = Some company_id])))"

subsection \<open>\<^verbatim>\<open>generate_collective_feedback_report\<close>\<close>

text \<open>
  The prompt is kept as the values interpolated into its text: the question number, the
  question, the average with its label, and the joined answers.
\<close>

record prompt =
  pr_idx :: nat
  pr_question :: "string option"
  pr_avg_rating :: "pynum option"
  pr_rating_label :: string
  pr_all_user_answers :: string

record report_entry =
  re_idx :: nat
  re_question :: "string option"
  re_avg_rating :: "pynum option"
  re_rating_label :: string
  re_summary :: string

datatype report_result = NoData string | FileResponse "report_entry list"

text \<open>
  The text-generation service is a parameter \<open>chat\<close>: the completion, or the message of
  the exception it raised. \<^verbatim>\<open>generate_feedback\<close> strips the completion and turns an
  exception into an HTTP error 500.
\<close>

definition generate_feedback :: "(prompt \<Rightarrow> string + string) \<Rightarrow> prompt \<Rightarrow> http_error + string" where
  "generate_feedback chat p =
     (case chat p of
        Inr content \<Rightarrow> Inr (strip content)
      | Inl e \<Rightarrow> Inl (HTTPException 500 (''Error generating feedback: '' @ e)))"

text \<open>The calls made to the two external collaborators, in the order they are made.\<close>

datatype call = TextGeneration prompt | Email "report_entry list"

text \<open>
  \<^verbatim>\<open>send_feedback_email_to_admin_with_attachment\<close>: the two environment variables and the
  SMTP relay \<open>smtp\<close> (\<open>None\<close> when the message was sent, the exception's message
  otherwise) are parameters. Without credentials the relay is not contacted.
\<close>

record smtp_env =
  smtp_email :: "string option"
  smtp_password :: "string option"

definition send_feedback_email_to_admin_with_attachment ::
  "smtp_env \<Rightarrow> (report_entry list \<Rightarrow> string option) \<Rightarrow> report_entry list
     \<Rightarrow> (http_error + unit) \<times> call list"
where
  "send_feedback_email_to_admin_with_attachment env smtp report =
     (if or_empty (smtp_email env) = [] \<or> or_empty (smtp_password env) = []
      then (Inl (HTTPException 500 ''SMTP credentials not configured''), [])
      else (case smtp report of
              None \<Rightarrow> (Inr (), [Email report])
            | Some e \<Rightarrow>
                (Inl (HTTPException 500 (''Failed to send email with attachment: '' @ e)),
                 [Email report])))"

text \<open>
  \<^verbatim>\<open>"Good" if isinstance(avg_rating, (int, float)) and avg_rating > 0 else
  ("Neutral" if avg_rating == 0 else "Poor")\<close>, where the average is the string
  \<^verbatim>\<open>"N/A"\<close> (\<open>None\<close>) when there is no rating.
\<close>

definition rating_label :: "pynum option \<Rightarrow> string" where
  "rating_label avg =
     (case avg of
        None \<Rightarrow> ''Poor''
      | Some v \<Rightarrow> if num_value v > 0 then ''Good'' else if num_value v = 0 then ''Neutral'' else ''Poor'')"

text \<open>\<^verbatim>\<open>"\n".join([f"- {a.answer}" for a in answers if a.answer])\<close>\<close>

fun join_lines :: "string list \<Rightarrow> string" where
  "join_lines [] = []"
| "join_lines [x] = x"
| "join_lines (x # y # ys) = x @ [CHR 0x0A] @ join_lines (y # ys)"

definition all_user_answers :: "UserAnswer list \<Rightarrow> string" where
  "all_user_answers answers' =
     join_lines (map (\<lambda>a. ''- '' @ or_empty (ua_answer a))
                   [a \<leftarrow> answers'. or_empty (ua_answer a) \<noteq> []])"

text \<open>
  The loop over \<^verbatim>\<open>enumerate(questions, 1)\<close>: the report and the calls made so far are
  carried along; an error of the text generation ends the request.
\<close>

fun report_loop ::
  "(prompt \<Rightarrow> string + string) \<Rightarrow> db \<Rightarrow> nat \<Rightarrow> Question list \<Rightarrow> report_entry list \<Rightarrow> call list
     \<Rightarrow> (http_error + report_entry list) \<times> call list"
where
  "report_loop chat d idx [] report calls = (Inr report, calls)"
| "report_loop chat d idx (q # rest) report calls =
     (let answers' = [a \<leftarrow> user_answers d. ua_question_id a = Some (q_id q)]
      in if answers' = [] then report_loop chat d (Suc idx) rest report calls
         else
           (let ratings = present_ratings answers';
                avg = avg_rating ratings;
                p = \<lparr>pr_idx = idx, pr_question = q_question q, pr_avg_rating = avg,
                     pr_rating_label = rating_label avg,
                     pr_all_user_answers = all_user_answers answers'\<rparr>
            in case generate_feedback chat p of
                 Inl e \<Rightarrow> (Inl e, calls @ [TextGeneration p])
               | Inr ai_summary \<Rightarrow>
                   report_loop chat d (Suc idx) rest
                     (report @ [\<lparr>re_idx = idx, re_question = q_question q, re_avg_rating = avg,
                                 re_rating_label = rating_label avg, re_summary = ai_summary\<rparr>])
                     (calls @ [TextGeneration p])))"

definition generate_collective_feedback_report ::
  "(prompt \<Rightarrow> string + string) \<Rightarrow> smtp_env \<Rightarrow> (report_entry list \<Rightarrow> string option) \<Rightarrow> db
     \<Rightarrow> (http_error + report_result) \<times> call list"
where
  "generate_collective_feedback_report chat env smtp d =
     (if questions d = [] then (Inl (HTTPException 404 ''No questions found''), [])
      else (case report_loop chat d 1 (questions d) [] [] of
              (Inl e, calls) \<Rightarrow> (Inl e, calls)
            | (Inr report, calls) \<Rightarrow>
                if report = [] then (Inr (NoData ''No data available for collective report.''), calls)
                else (case send_feedback_email_to_admin_with_attachment env smtp report of
                        (Inl e, sent) \<Rightarrow> (Inl e, calls @ sent)
                      | (Inr u, sent) \<Rightarrow> (Inr (FileResponse report), calls @ sent))))"

section \<open>Deleting a company: \<^verbatim>\<open>delete_company\<close> (controller/admin.py)\<close>

text \<open>
  \<^verbatim>\<open>db.delete(company)\<close> removes the row; the three foreign keys onto \<^verbatim>\<open>companies.id\<close>
  are declared \<^verbatim>\<open>ondelete='SET NULL'\<close> in \<^verbatim>\<open>database/models.py\<close> (users, profiles and
  sections), so the database clears the references that are left.
\<close>

definition db_delete_company :: "int \<Rightarrow> db \<Rightarrow> db" where
  "db_delete_company company_id d =
     d\<lparr>companies := [c \<leftarrow> companies d. c_id c \<noteq> company_id],
       users := map (\<lambda>u. if u_company_id u = Some company_id then u\<lparr>u_company_id := None\<rparr> else u)
                  (users d),
       profiles := map (\<lambda>p. if p_company_id p = Some company_id then p\<lparr>p_company_id := None\<rparr> else p)
                     (profiles d),
       sections := map (\<lambda>s. if s_company_id s = Some company_id then s\<lparr>s_company_id := None\<rparr> else s)
                     (sections d)\<rparr>"

text \<open>The decimal digits of a number, for the counts in the message.\<close>

function str_nat :: "nat \<Rightarrow> string" where
  "str_nat n = (if n < 10 then [char_of (48 + n)] else str_nat (n div 10) @ [char_of (48 + n mod 10)])"
  by pat_completeness auto
termination
  by (relation "measure id") auto

text \<open>
  The handler first clears the company of the users and of the sections itself (the two
  \<^verbatim>\<open>update\<close> queries), then deletes the row. The \<^verbatim>\<open>except\<close> branches answer failures of
  the database, which the store of this model does not have.
\<close>

definition delete_company :: "int \<Rightarrow> db \<Rightarrow> http_error + (string \<times> db)" where
  "delete_company company_id d =
     (case find (\<lambda>c. c_id c = company_id) (companies d) of
        None \<Rightarrow> Inl (HTTPException 404 ''Company not found'')
      | Some company \<Rightarrow>
          (let users_updated = length [u \<leftarrow> users d. u_company_id u = Some company_id];
               d1 = d\<lparr>users := map (\<lambda>u. if u_company_id u = Some company_id
                                         then u\<lparr>u_company_id := None\<rparr> else u) (users d)\<rparr>;
               sections_updated = length [s \<leftarrow> sections d1. s_company_id s = Some company_id];
               d2 = d1\<lparr>sections := map (\<lambda>s. if s_company_id s = Some company_id
                                             then s\<lparr>s_company_id := None\<rparr> else s) (sections d1)\<rparr>;
               d3 = db_delete_company (c_id company) d2;
               message =
                 ''Company deleted successfully'' @
                 (if users_updated > 0 \<or> sections_updated > 0
                  then '' '' @ str_nat users_updated @ '' user(s) and '' @ str_nat sections_updated
                       @ '' section(s) had their company_id set to NULL.''
                  else [])
           in Inr (message, d3)))"

section \<open>The classification of answers in the specification's words\<close>

text \<open>
  An answer text is blank when it is missing or consists of whitespace only. A "cannot
  answer" has the rating 0 and a blank text; a substantive answer has a rating other than
  0 and a text that is not blank.
\<close>

definition blank :: "string option \<Rightarrow> bool" where
  "blank t \<longleftrightarrow> (case t of None \<Rightarrow> True | Some s \<Rightarrow> strip s = [])"

definition cannot_answer :: "UserAnswer \<Rightarrow> bool" where
  "cannot_answer a \<longleftrightarrow> ua_rating a = Some 0 \<and> blank (ua_answer a)"

definition substantive :: "UserAnswer \<Rightarrow> bool" where
  "substantive a \<longleftrightarrow>
     (case ua_rating a of None \<Rightarrow> False | Some r \<Rightarrow> r \<noteq> 0) \<and> \<not> blank (ua_answer a)"

text \<open>Whether a section is visible to a user of the given company (or of none).\<close>

definition visible_to :: "int option \<Rightarrow> Section \<Rightarrow> bool" where
  "visible_to company s \<longleftrightarrow>
     (case company of
        None \<Rightarrow> True
      | Some c \<Rightarrow> s_company_id s = Some c \<or> s_company_id s = None)"

section \<open>The formulas of the specification\<close>

text \<open>
  "\<^verbatim>\<open>completion_percentage = round(100 * answered_count / total_questions, 1)\<close>, defined
  as 0 when \<^verbatim>\<open>total_questions = 0\<close>": the exact quotient rounded to one decimal place, as
  a float.
\<close>

definition spec_completion_percentage :: "nat \<Rightarrow> nat \<Rightarrow> rat" where
  "spec_completion_percentage answered_count total_questions =
     (if total_questions = 0 then 0
      else binary64 (of_int (round_half_even
                               (100 * of_nat answered_count / of_nat total_questions * 10)) / 10))"

text \<open>
  "\<^verbatim>\<open>avg_rating\<close>: arithmetic mean of present ratings, rounded to 2 decimal places;
  undefined/absent if no ratings exist": the exact mean rounded, as a float.
\<close>

definition spec_avg_rating :: "int list \<Rightarrow> rat option" where
  "spec_avg_rating ratings =
     (if ratings = [] then None
      else Some (binary64 (of_int (round_half_even
                                     (of_int (sum_list ratings) / of_nat (length ratings) * 100)) / 100)))"

section \<open>Example data\<close>

text \<open>
  A small store used to run the operations: one company, a global section and a section
  of the company, three questions, an internal account, two profiles, and one stored
  answer that already carries generated feedback. The parser accepts two timestamps only.
\<close>

definition ex_fromisoformat :: "string \<Rightarrow> datetime option" where
  "ex_fromisoformat s =
     (if s = ''2024-05-01T10:00:00+00:00'' \<or> s = ''2024-05-01Z10:00:00''
      then Some (Datetime 1714557600) else None)"

definition ex_now :: "nat \<Rightarrow> datetime" where
  "ex_now k = Datetime (1720000000 + int k)"

definition ex_profile :: Profile where
  "ex_profile = \<lparr>p_id = ''u1'', p_email = Some ''ann@example.org'', p_name = Some ''Ann'',
                  p_company_id = Some 1\<rparr>"

definition ex_question :: "int \<Rightarrow> int \<Rightarrow> Question" where
  "ex_question i section_id =
     \<lparr>q_id = i, q_section_id = Some section_id, q_question = Some ''How was it?'',
      q_rating_3_text = Some ''very good'', q_rating_neg3_text = Some ''very bad'',
      q_show_rating_scale = True, q_subject = None\<rparr>"

definition ex_answer :: "int \<Rightarrow> int \<Rightarrow> uuid \<Rightarrow> string \<Rightarrow> int option \<Rightarrow> UserAnswer" where
  "ex_answer i question_id user_id text r =
     \<lparr>ua_id = i, ua_question_id = Some question_id, ua_user_id = Some user_id,
      ua_answer = Some text, ua_rating = r, ua_feedback = None,
      ua_feedback_generated = False, ua_submitted_at = Some (Datetime 1700000000)\<rparr>"

definition ex_db :: db where
  "ex_db =
     \<lparr>companies = [\<lparr>c_id = 1, c_name = Some ''Acme''\<rparr>],
      sections = [\<lparr>s_id = 1, s_label = Some ''A'', s_title = Some ''General'', s_company_id = None\<rparr>,
                  \<lparr>s_id = 2, s_label = Some ''B'', s_title = Some ''Acme only'', s_company_id = Some 1\<rparr>],
      questions = [ex_question 1 1, ex_question 2 1, ex_question 3 2],
      user_answers = [(ex_answer 1 1 ''u1'' ''old text'' (Some 1))
                        \<lparr>ua_feedback := Some ''Well argued.'', ua_feedback_generated := True\<rparr>],
      users = [\<lparr>u_id = 7, u_email = Some ''root@example.org'', u_name = Some ''Root'',
                u_hashed_password = Some ''$2b$12$abcdefgh'', u_company_id = Some 1\<rparr>],
      profiles = [ex_profile,
                  \<lparr>p_id = ''u2'', p_email = Some ''bob@example.org'', p_name = Some ''Bob'',
                   p_company_id = None\<rparr>],
      user_answers_seq = 1\<rparr>"

definition ex_submit :: "int \<Rightarrow> string \<Rightarrow> int option \<Rightarrow> string option \<Rightarrow> AnswerSubmit" where
  "ex_submit question_id text r sa =
     \<lparr>sub_question_id = question_id, sub_answer = text, sub_rating = r, sub_submitted_at = sa\<rparr>"

text \<open>
  The same store with all three questions answered by the first profile, the third as
  "cannot answer"; the same with a text on the third answer; an empty store; and
  collaborators that always succeed.
\<close>

definition ex_db_complete :: db where
  "ex_db_complete =
     ex_db\<lparr>user_answers := [ex_answer 1 1 ''u1'' ''ok'' (Some 2), ex_answer 2 2 ''u1'' ''ok'' (Some 2),
                             ex_answer 3 3 ''u1'' [] (Some 0)],
           user_answers_seq := 3\<rparr>"

definition ex_db_rated_zero :: db where
  "ex_db_rated_zero =
     ex_db\<lparr>user_answers := [ex_answer 1 1 ''u1'' ''ok'' (Some 2), ex_answer 2 2 ''u1'' ''ok'' (Some 2),
                             ex_answer 3 3 ''u1'' ''maybe'' (Some 0)],
           user_answers_seq := 3\<rparr>"

definition empty_db :: db where
  "empty_db = \<lparr>companies = [], sections = [], questions = [], user_answers = [], users = [],
                profiles = [], user_answers_seq = 0\<rparr>"

definition ex_chat :: "prompt \<Rightarrow> string + string" where
  "ex_chat p = Inr '' The answers are positive. ''"

definition ex_env :: smtp_env where
  "ex_env = \<lparr>smtp_email = Some ''reports@example.org'', smtp_password = Some ''secret''\<rparr>"

definition ex_smtp :: "report_entry list \<Rightarrow> string option" where
  "ex_smtp report = None"

text \<open>
  The first store with two of the three questions answered; a store with 80 questions in a
  global section, 23 of them answered by the profile; and a store with one question that
  40 profiles rated, 27 with 3 and 13 with 2.
\<close>

definition ex_db_partial :: db where
  "ex_db_partial =
     ex_db\<lparr>user_answers := [ex_answer 1 1 ''u1'' ''ok'' (Some 2), ex_answer 2 2 ''u1'' ''ok'' (Some 2)],
           user_answers_seq := 2\<rparr>"

definition ex_db_80 :: db where
  "ex_db_80 =
     \<lparr>companies = [\<lparr>c_id = 1, c_name = Some ''Acme''\<rparr>],
      sections = [\<lparr>s_id = 1, s_label = Some ''A'', s_title = Some ''General'', s_company_id = None\<rparr>],
      questions = map (\<lambda>i. ex_question i 1) [1..80],
      user_answers = map (\<lambda>i. ex_answer i i ''u1'' ''ok'' (Some 2)) [1..23],
      users = [],
      profiles = [ex_profile],
      user_answers_seq = 23\<rparr>"

definition ex_db_40 :: db where
  "ex_db_40 =
     \<lparr>companies = [\<lparr>c_id = 1, c_name = Some ''Acme''\<rparr>],
      sections = [\<lparr>s_id = 2, s_label = Some ''B'', s_title = Some ''Acme only'', s_company_id = Some 1\<rparr>],
      questions = [ex_question 1 2],
      user_answers = map (\<lambda>i. ex_answer i 1 (''u'' @ str_nat (nat i)) ''ok'' (Some (if i \<le> 27 then 3 else 2)))
                       [1..40],
      users = [],
      profiles = [],
      user_answers_seq = 40\<rparr>"

section \<open>Lemmas on lists\<close>

lemmas ex_defs = ex_db_def ex_answer_def ex_question_def ex_profile_def ex_submit_def
  ex_fromisoformat_def ex_now_def

lemma length_update_first: "length (update_first P f xs) = length xs"
  by (induction xs) auto

lemma map_update_first: "(\<And>x. g (f x) = g x) \<Longrightarrow> map g (update_first P f xs) = map g xs"
  by (induction xs) auto

lemma find_update_first_same:
  "(\<And>x. P x \<Longrightarrow> P (f x)) \<Longrightarrow> find P (update_first P f xs) = map_option f (find P xs)"
  by (induction xs) auto

lemma find_update_first_other:
  "(\<And>x. Q (f x) = Q x) \<Longrightarrow> (\<And>x. P x \<Longrightarrow> \<not> Q x)
     \<Longrightarrow> find Q (update_first P f xs) = find Q xs"
  by (induction xs) auto

lemma filter_update_first_same:
  "(\<And>x. P (f x) = P x) \<Longrightarrow>
     filter P (update_first P f xs) = (case filter P xs of [] \<Rightarrow> [] | y # ys \<Rightarrow> f y # ys)"
  by (induction xs) auto

lemma filter_update_first_other:
  "(\<And>x. Q (f x) = Q x) \<Longrightarrow> (\<And>x. P x \<Longrightarrow> \<not> Q x)
     \<Longrightarrow> filter Q (update_first P f xs) = filter Q xs"
  by (induction xs) auto

lemma find_append_single:
  "find P (xs @ [y]) = (case find P xs of Some a \<Rightarrow> Some a | None \<Rightarrow> if P y then Some y else None)"
  by (induction xs) auto

lemma find_None_filter: "find P xs = None \<longleftrightarrow> filter P xs = []"
  by (induction xs) auto

lemma find_Some_filter: "find P xs = Some a \<Longrightarrow> \<exists>ys. filter P xs = a # ys"
  by (induction xs) (auto split: if_splits)


section \<open>Answer submission: the loop and its invariants\<close>

lemma distinct_map_iff_filter_le1:
  "distinct (map f xs) \<longleftrightarrow> (\<forall>k. length (filter (\<lambda>x. f x = k) xs) \<le> 1)"
proof (induction xs)
  case Nil
  show ?case by simp
next
  case (Cons x xs)
  have a: "f x \<notin> f ` set xs \<longleftrightarrow> filter (\<lambda>y. f y = f x) xs = []"
    by (auto simp: filter_empty_conv) (metis imageI)
  show ?case
  proof
    assume d: "distinct (map f (x # xs))"
    then have e: "filter (\<lambda>y. f y = f x) xs = []" and r: "\<forall>k. length (filter (\<lambda>x. f x = k) xs) \<le> 1"
      using a Cons.IH by auto
    show "\<forall>k. length (filter (\<lambda>y. f y = k) (x # xs)) \<le> 1"
    proof
      fix k
      show "length (filter (\<lambda>y. f y = k) (x # xs)) \<le> 1"
        using e r by (cases "f x = k") auto
    qed
  next
    assume h: "\<forall>k. length (filter (\<lambda>y. f y = k) (x # xs)) \<le> 1"
    have "length (filter (\<lambda>y. f y = f x) (x # xs)) \<le> 1" using h by blast
    then have e: "filter (\<lambda>y. f y = f x) xs = []" by simp
    have "\<forall>k. length (filter (\<lambda>y. f y = k) xs) \<le> 1"
    proof
      fix k
      have "length (filter (\<lambda>y. f y = k) (x # xs)) \<le> 1" using h by blast
      then show "length (filter (\<lambda>y. f y = k) xs) \<le> 1" by (simp split: if_splits)
    qed
    then show "distinct (map f (x # xs))" using e a Cons.IH by simp
  qed
qed

lemma one_answer_per_pair_le1:
  assumes "one_answer_per_pair rows"
  shows "length (filter (answer_of u q) rows) \<le> 1"
proof -
  let ?nn = "\<lambda>a. ua_user_id a \<noteq> None \<and> ua_question_id a \<noteq> None"
  let ?key = "\<lambda>a. (ua_user_id a, ua_question_id a)"
  have "length (filter (\<lambda>a. ?key a = (Some u, Some q)) (filter ?nn rows)) \<le> 1"
    using assms distinct_map_iff_filter_le1 [of ?key "filter ?nn rows"]
    unfolding one_answer_per_pair_def by blast
  moreover have "filter (\<lambda>a. ?key a = (Some u, Some q)) (filter ?nn rows) = filter (answer_of u q) rows"
    by (auto simp: answer_of_def intro: filter_cong)
  ultimately show ?thesis by simp
qed

lemma map_filter_update_first:
  "(\<And>x. g (f x) = g x) \<Longrightarrow> (\<And>x. Q (f x) = Q x)
     \<Longrightarrow> map g (filter Q (update_first P f xs)) = map g (filter Q xs)"
  by (induction xs) auto

lemma one_answer_per_pair_update:
  assumes "\<And>x. ua_user_id (f x) = ua_user_id x" "\<And>x. ua_question_id (f x) = ua_question_id x"
  shows "one_answer_per_pair (update_first P f rows) = one_answer_per_pair rows"
  unfolding one_answer_per_pair_def
  by (subst map_filter_update_first) (simp_all add: assms)

lemma one_answer_per_pair_insert:
  assumes "one_answer_per_pair rows" "find (answer_of u q) rows = None"
    "ua_user_id a = Some u" "ua_question_id a = Some q"
  shows "one_answer_per_pair (rows @ [a])"
proof -
  have "filter (answer_of u q) rows = []" using assms(2) by (simp add: find_None_filter)
  then have "\<forall>x \<in> set rows. \<not> answer_of u q x" by (simp add: filter_empty_conv)
  then have "\<forall>x \<in> set rows. (ua_user_id x, ua_question_id x) \<noteq> (Some u, Some q)"
    by (auto simp: answer_of_def)
  then show ?thesis using assms(1,3,4) by (auto simp: one_answer_per_pair_def)
qed


lemma keeps_rows_refl: "keeps_rows rows rows"
  by (simp add: keeps_rows_def)

lemma keeps_rows_trans:
  assumes ab: "keeps_rows a b" and bc: "keeps_rows b c"
  shows "keeps_rows a c"
proof -
  have lab: "length a \<le> length b" and lbc: "length b \<le> length c"
    using ab bc by (simp_all add: keeps_rows_def)
  have fb: "map frame (take (length b) c) = map frame b"
    using bc by (simp add: keeps_rows_def)
  have fa: "map frame (take (length a) b) = map frame a"
    using ab by (simp add: keeps_rows_def)
  have "take (length a) c = take (length a) (take (length b) c)"
    using lab by (simp add: min_def)
  then have "map frame (take (length a) c) = take (length a) (map frame (take (length b) c))"
    by (simp add: take_map)
  also have "\<dots> = map frame (take (length a) b)"
    by (simp add: fb take_map)
  finally have 1: "map frame (take (length a) c) = map frame a"
    using fa by simp
  have 2: "ua_feedback x = None \<and> \<not> ua_feedback_generated x" if x: "x \<in> set (drop (length a) c)" for x
  proof -
    have "c = take (length b) c @ drop (length b) c" by simp
    then have "drop (length a) c = drop (length a) (take (length b) c) @ drop (length b) c"
      using lab lbc by (metis append_take_drop_id drop_append length_take min.absorb2 diff_is_0_eq drop0 min.commute)
    then consider "x \<in> set (drop (length a) (take (length b) c))" | "x \<in> set (drop (length b) c)"
      using x by auto
    then show ?thesis
    proof cases
      case 1
      then have "frame x \<in> set (map frame (drop (length a) (take (length b) c)))" by simp
      also have "map frame (drop (length a) (take (length b) c)) = map frame (drop (length a) b)"
        using fb by (metis drop_map)
      finally have "frame x \<in> frame ` set (drop (length a) b)"
        by simp
      then obtain y where y: "y \<in> set (drop (length a) b)" "frame y = frame x" by auto
      then have "ua_feedback y = None \<and> \<not> ua_feedback_generated y"
        using ab by (simp add: keeps_rows_def)
      then show ?thesis using y(2) by (simp add: frame_def)
    next
      case 2
      then show ?thesis using bc by (simp add: keeps_rows_def)
    qed
  qed
  show ?thesis unfolding keeps_rows_def using lab lbc 1 2 by auto
qed

lemma keeps_rows_update:
  assumes "\<And>x. frame (f x) = frame x"
  shows "keeps_rows rows (update_first P f rows)"
  by (simp add: keeps_rows_def length_update_first map_update_first assms)

lemma keeps_rows_insert:
  assumes "ua_feedback a = None" "\<not> ua_feedback_generated a"
  shows "keeps_rows rows (rows @ [a])"
  using assms by (simp add: keeps_rows_def)

lemma keeps_rows_frame_mem:
  assumes "keeps_rows rows rows'" "a \<in> set rows"
  shows "\<exists>a' \<in> set rows'. frame a' = frame a"
proof -
  have "frame a \<in> set (map frame rows)" using assms(2) by simp
  also have "map frame rows = map frame (take (length rows) rows')"
    using assms(1) by (simp add: keeps_rows_def)
  finally obtain a' where "a' \<in> set (take (length rows) rows')" "frame a' = frame a" by auto
  then show ?thesis by (meson in_set_takeD)
qed

lemma submit_one_skip:
  "\<not> question_exists d (sub_question_id t) \<Longrightarrow> submit_one F now u (d, saved, k) t = (d, saved, k)"
  by (simp add: submit_one_def question_exists_def)

lemma submit_one_questions:
  "questions (fst (submit_one F now u st t)) = questions (fst st)"
  by (cases st) (auto simp: submit_one_def Let_def split: option.splits prod.splits)

lemma submit_one_invariant:
  assumes "one_answer_per_pair (user_answers (fst st))"
  shows "one_answer_per_pair (user_answers (fst (submit_one F now u st t)))"
proof (cases st)
  case (fields d saved k)
  show ?thesis
  proof (cases "find (\<lambda>q. q_id q = sub_question_id t) (questions d)")
    case None
    then show ?thesis using assms fields by (simp add: submit_one_def)
  next
    case (Some q)
    obtain ts k' where r: "resolve_submitted_at F now k (sub_submitted_at t) = (ts, k')"
      by (cases "resolve_submitted_at F now k (sub_submitted_at t)")
    show ?thesis
    proof (cases "find (answer_of u (sub_question_id t)) (user_answers d)")
      case None
      then show ?thesis using assms fields Some r
        by (simp add: submit_one_def Let_def one_answer_per_pair_insert)
    next
      case (Some a)
      then show ?thesis using assms fields \<open>find (\<lambda>q. q_id q = sub_question_id t) (questions d) = Some q\<close> r
        by (simp add: submit_one_def Let_def one_answer_per_pair_update)
    qed
  qed
qed

lemma submit_one_keeps_rows:
  "keeps_rows (user_answers (fst st)) (user_answers (fst (submit_one F now u st t)))"
proof (cases st)
  case (fields d saved k)
  show ?thesis
  proof (cases "find (\<lambda>q. q_id q = sub_question_id t) (questions d)")
    case None
    then show ?thesis using fields by (simp add: submit_one_def keeps_rows_refl)
  next
    case (Some q)
    obtain ts k' where r: "resolve_submitted_at F now k (sub_submitted_at t) = (ts, k')"
      by (cases "resolve_submitted_at F now k (sub_submitted_at t)")
    show ?thesis
    proof (cases "find (answer_of u (sub_question_id t)) (user_answers d)")
      case None
      then show ?thesis using fields Some r
        by (simp add: submit_one_def Let_def keeps_rows_insert)
    next
      case (Some a)
      then show ?thesis using fields \<open>find (\<lambda>q. q_id q = sub_question_id t) (questions d) = Some q\<close> r
        by (simp add: submit_one_def Let_def keeps_rows_update frame_def)
    qed
  qed
qed


lemma answer_of_overwrite [simp]:
  "answer_of u q (a\<lparr>ua_answer := x, ua_rating := y, ua_submitted_at := z\<rparr>) = answer_of u q a"
  by (simp add: answer_of_def)

lemma submit_one_other_key:
  assumes "q \<noteq> sub_question_id t \<or> u' \<noteq> u"
  shows "find (answer_of u' q) (user_answers (fst (submit_one F now u st t)))
           = find (answer_of u' q) (user_answers (fst st))"
proof (cases st)
  case (fields d saved k)
  have ne: "\<And>x. answer_of u (sub_question_id t) x \<Longrightarrow> \<not> answer_of u' q x"
    using assms by (auto simp: answer_of_def)
  show ?thesis
  proof (cases "find (\<lambda>q. q_id q = sub_question_id t) (questions d)")
    case None
    then show ?thesis using fields by (simp add: submit_one_def)
  next
    case (Some qq)
    obtain ts k' where r: "resolve_submitted_at F now k (sub_submitted_at t) = (ts, k')"
      by (cases "resolve_submitted_at F now k (sub_submitted_at t)")
    show ?thesis
    proof (cases "find (answer_of u (sub_question_id t)) (user_answers d)")
      case None
      then show ?thesis using fields Some r assms
        by (auto simp: submit_one_def Let_def find_append_single answer_of_def split: option.splits)
    next
      case (Some a)
      then show ?thesis using fields \<open>find (\<lambda>q. q_id q = sub_question_id t) (questions d) = Some qq\<close> r ne
        by (simp add: submit_one_def Let_def find_update_first_other)
    qed
  qed
qed

lemma submit_one_content:
  assumes "question_exists d (sub_question_id t)"
  shows "\<exists>a. find (answer_of u (sub_question_id t))
                 (user_answers (fst (submit_one F now u (d, saved, k) t))) = Some a
             \<and> ua_answer a = Some (sub_answer t) \<and> ua_rating a = sub_rating t
             \<and> ua_submitted_at a = Some (fst (resolve_submitted_at F now k (sub_submitted_at t)))
             \<and> (case find (answer_of u (sub_question_id t)) (user_answers d) of
                  Some old \<Rightarrow> frame a = frame old
                | None \<Rightarrow> ua_feedback a = None \<and> \<not> ua_feedback_generated a)"
proof -
  obtain qq where q: "find (\<lambda>q. q_id q = sub_question_id t) (questions d) = Some qq"
    using assms by (auto simp: question_exists_def)
  obtain ts k' where r: "resolve_submitted_at F now k (sub_submitted_at t) = (ts, k')"
    by (cases "resolve_submitted_at F now k (sub_submitted_at t)")
  show ?thesis
  proof (cases "find (answer_of u (sub_question_id t)) (user_answers d)")
    case None
    then show ?thesis using q r
      by (simp add: submit_one_def Let_def find_append_single answer_of_def)
  next
    case (Some a)
    then show ?thesis using q r
      by (simp add: submit_one_def Let_def find_update_first_same frame_def)
  qed
qed

lemma saved_rows_keeps:
  assumes "saved_rows u rows saved" "keeps_rows rows rows'"
  shows "saved_rows u rows' saved"
  unfolding saved_rows_def
proof (clarify)
  fix q i assume "(q, i) \<in> set saved"
  then obtain a where a: "a \<in> set rows" "ua_id a = i" "answer_of u q a"
    using assms(1) by (auto simp: saved_rows_def)
  obtain a' where "a' \<in> set rows'" "frame a' = frame a"
    using keeps_rows_frame_mem [OF assms(2) a(1)] by blast
  then show "\<exists>a\<in>set rows'. ua_id a = i \<and> answer_of u q a"
    using a by (auto simp: frame_def answer_of_def)
qed

lemma find_Some_mem: "find P xs = Some a \<Longrightarrow> a \<in> set xs \<and> P a"
  by (induction xs) (auto split: if_splits)

lemma submit_one_saved:
  assumes "question_exists d (sub_question_id t)"
  shows "\<exists>answer_id. fst (snd (submit_one F now u (d, saved, k) t))
                        = saved @ [(sub_question_id t, answer_id)]
           \<and> (\<exists>a \<in> set (user_answers (fst (submit_one F now u (d, saved, k) t))).
                 ua_id a = answer_id \<and> answer_of u (sub_question_id t) a)"
proof -
  obtain qq where q: "find (\<lambda>q. q_id q = sub_question_id t) (questions d) = Some qq"
    using assms by (auto simp: question_exists_def)
  obtain ts k' where r: "resolve_submitted_at F now k (sub_submitted_at t) = (ts, k')"
    by (cases "resolve_submitted_at F now k (sub_submitted_at t)")
  show ?thesis
  proof (cases "find (answer_of u (sub_question_id t)) (user_answers d)")
    case None
    then show ?thesis using q r
      by (simp add: submit_one_def Let_def answer_of_def)
  next
    case (Some a)
    let ?f = "\<lambda>a. a\<lparr>ua_answer := Some (sub_answer t), ua_rating := sub_rating t,
                      ua_submitted_at := Some ts\<rparr>"
    let ?rows' = "update_first (answer_of u (sub_question_id t)) ?f (user_answers d)"
    have "find (answer_of u (sub_question_id t)) ?rows' = Some (?f a)"
      using Some by (simp add: find_update_first_same)
    then have "?f a \<in> set ?rows'" by (simp add: find_Some_mem)
    moreover have "answer_of u (sub_question_id t) a" using Some by (simp add: find_Some_mem)
    ultimately have "\<exists>x \<in> set ?rows'. ua_id x = ua_id a \<and> answer_of u (sub_question_id t) x"
      by (intro bexI [of _ "?f a"]) simp_all
    then show ?thesis using Some q r
      by (simp add: submit_one_def Let_def)
  qed
qed

lemma submit_loop_append:
  "submit_loop F now u st (xs @ ys) = submit_loop F now u (submit_loop F now u st xs) ys"
  by (induction xs arbitrary: st) simp_all

lemma submit_loop_questions:
  "questions (fst (submit_loop F now u st batch)) = questions (fst st)"
  by (induction batch arbitrary: st) (simp_all add: submit_one_questions)

lemma submit_loop_invariant:
  "one_answer_per_pair (user_answers (fst st))
     \<Longrightarrow> one_answer_per_pair (user_answers (fst (submit_loop F now u st batch)))"
  by (induction batch arbitrary: st) (simp_all add: submit_one_invariant)

lemma submit_loop_keeps_rows:
  "keeps_rows (user_answers (fst st)) (user_answers (fst (submit_loop F now u st batch)))"
proof (induction batch arbitrary: st)
  case Nil
  show ?case by (simp add: keeps_rows_refl)
next
  case (Cons t batch)
  show ?case
    using keeps_rows_trans [OF submit_one_keeps_rows Cons.IH] by simp
qed

lemma submit_loop_other_key:
  assumes "\<forall>t \<in> set batch. sub_question_id t \<noteq> q"
  shows "find (answer_of u q) (user_answers (fst (submit_loop F now u st batch)))
           = find (answer_of u q) (user_answers (fst st))"
  using assms
proof (induction batch arbitrary: st)
  case Nil
  show ?case by simp
next
  case (Cons t batch)
  then show ?case by (simp add: submit_one_other_key)
qed

lemma submit_loop_other_user:
  assumes "u' \<noteq> u"
  shows "find (answer_of u' q) (user_answers (fst (submit_loop F now u st batch)))
           = find (answer_of u' q) (user_answers (fst st))"
  using assms by (induction batch arbitrary: st) (simp_all add: submit_one_other_key)

lemma question_exists_cong: "questions d' = questions d \<Longrightarrow> question_exists d' = question_exists d"
  by (auto simp: question_exists_def fun_eq_iff)

lemma submit_loop_saved:
  assumes "saved_rows u (user_answers (fst st)) (fst (snd st))"
  shows "map fst (fst (snd (submit_loop F now u st batch)))
           = map fst (fst (snd st)) @ map sub_question_id (filter (\<lambda>t. question_exists (fst st) (sub_question_id t)) batch)
       \<and> saved_rows u (user_answers (fst (submit_loop F now u st batch)))
            (fst (snd (submit_loop F now u st batch)))"
  using assms
proof (induction batch arbitrary: st)
  case Nil
  then show ?case by simp
next
  case (Cons t batch)
  obtain d saved k where st: "st = (d, saved, k)" by (cases st)
  let ?st' = "submit_one F now u st t"
  have q: "question_exists (fst ?st') = question_exists (fst st)"
    by (rule question_exists_cong) (rule submit_one_questions)
  have kr: "keeps_rows (user_answers (fst st)) (user_answers (fst ?st'))"
    by (rule submit_one_keeps_rows)
  have old: "saved_rows u (user_answers (fst ?st')) (fst (snd st))"
    using saved_rows_keeps [OF Cons.prems kr] .
  show ?case
  proof (cases "question_exists d (sub_question_id t)")
    case False
    then have "?st' = st" using st by (simp add: submit_one_skip)
    then show ?thesis using Cons.IH [of st] Cons.prems False st by simp
  next
    case True
    obtain i where i: "fst (snd ?st') = saved @ [(sub_question_id t, i)]"
      "\<exists>a \<in> set (user_answers (fst ?st')). ua_id a = i \<and> answer_of u (sub_question_id t) a"
      using submit_one_saved [OF True, of F now u saved k] st by auto
    have "saved_rows u (user_answers (fst ?st')) (fst (snd ?st'))"
      using old i st by (auto simp: saved_rows_def)
    from Cons.IH [OF this] show ?thesis
      using True st i(1) q by simp
  qed
qed


lemma submit_answers_profile:
  "submit_answers F now batch (IsProfile p) d =
     Inr (\<lparr>resp_saved_count = length (fst (snd (submit_loop F now (p_id p) (d, [], 0) batch))),
           resp_answers = fst (snd (submit_loop F now (p_id p) (d, [], 0) batch))\<rparr>,
          fst (submit_loop F now (p_id p) (d, [], 0) batch))"
  by (simp add: submit_answers_def split: prod.splits)

lemma submit_loop_last_for_question:
  assumes v: "question_exists d (sub_question_id t)"
    and l: "\<forall>t' \<in> set ys. sub_question_id t' \<noteq> sub_question_id t"
  shows "\<exists>a k. find (answer_of u (sub_question_id t))
                   (user_answers (fst (submit_loop F now u (d, saved, k0) (xs @ t # ys)))) = Some a
            \<and> ua_answer a = Some (sub_answer t) \<and> ua_rating a = sub_rating t
            \<and> ua_submitted_at a = Some (fst (resolve_submitted_at F now k (sub_submitted_at t)))"
proof -
  obtain d1 s1 k1 where st1: "submit_loop F now u (d, saved, k0) xs = (d1, s1, k1)"
    by (cases "submit_loop F now u (d, saved, k0) xs")
  have "questions d1 = questions d"
    using submit_loop_questions [of F now u "(d, saved, k0)" xs] st1 by simp
  then have v1: "question_exists d1 (sub_question_id t)"
    using v by (simp add: question_exists_def)
  let ?st2 = "submit_one F now u (d1, s1, k1) t"
  have fin: "submit_loop F now u (d, saved, k0) (xs @ t # ys) = submit_loop F now u ?st2 ys"
    by (simp add: submit_loop_append st1)
  obtain a where a: "find (answer_of u (sub_question_id t)) (user_answers (fst ?st2)) = Some a"
    "ua_answer a = Some (sub_answer t)" "ua_rating a = sub_rating t"
    "ua_submitted_at a = Some (fst (resolve_submitted_at F now k1 (sub_submitted_at t)))"
    using submit_one_content [OF v1, of u F now s1 k1] by blast
  have "find (answer_of u (sub_question_id t)) (user_answers (fst (submit_loop F now u ?st2 ys)))
          = Some a"
    using submit_loop_other_key [OF l, of u F now ?st2] a(1) by simp
  then show ?thesis using a(2,3,4) fin by auto
qed

lemma find_filter_single:
  assumes "find P xs = Some a" "length (filter P xs) \<le> 1"
  shows "filter P xs = [a]"
proof -
  obtain ys where "filter P xs = a # ys" using find_Some_filter [OF assms(1)] by blast
  then show ?thesis using assms(2) by simp
qed

lemma find_None_no_mem: "find P xs = None \<Longrightarrow> x \<in> set xs \<Longrightarrow> \<not> P x"
  by (induction xs) (auto split: if_splits)

lemma keeps_rows_origin:
  assumes kr: "keeps_rows rows rows'" and a: "a \<in> set rows'"
  shows "(\<exists>old \<in> set rows. frame old = frame a) \<or> (ua_feedback a = None \<and> \<not> ua_feedback_generated a)"
proof -
  have "rows' = take (length rows) rows' @ drop (length rows) rows'" by simp
  then have "a \<in> set (take (length rows) rows') \<or> a \<in> set (drop (length rows) rows')"
    using a by (metis Un_iff set_append)
  then show ?thesis
  proof
    assume "a \<in> set (take (length rows) rows')"
    then have "frame a \<in> set (map frame (take (length rows) rows'))" by simp
    moreover have "map frame (take (length rows) rows') = map frame rows"
      using kr by (simp add: keeps_rows_def)
    ultimately have "frame a \<in> set (map frame rows)" by metis
    then show ?thesis by auto
  next
    assume "a \<in> set (drop (length rows) rows')"
    then show ?thesis using kr by (simp add: keeps_rows_def)
  qed
qed

lemma answer_of_frame: "frame a = frame b \<Longrightarrow> answer_of u q a = answer_of u q b"
  by (simp add: frame_def answer_of_def)

section \<open>Properties of answer submission\<close>

text \<open>
  Claim C1. A batch submitted by a profile always succeeds and keeps the invariant that
  there is at most one answer row per (user, question) pair. For a tuple of the batch
  whose question exists and that is the last of the batch for its question, the store
  afterwards holds exactly one row for the pair; it carries the tuple's answer and rating
  and the resolved timestamp; when a row for the pair existed before the request it is that
  row, with its id, and otherwise the row is new, with no feedback and
  \<^verbatim>\<open>feedback_generated\<close> false. Submitting a pair twice therefore leaves one row with
  the later content.
\<close>

theorem submit_answers_upsert:
  assumes inv: "one_answer_per_pair (user_answers d)"
  shows "\<exists>resp d'. submit_answers F now batch (IsProfile p) d = Inr (resp, d')
     \<and> one_answer_per_pair (user_answers d')
     \<and> (\<forall>u q. length (filter (answer_of u q) (user_answers d')) \<le> 1)
     \<and> (\<forall>xs t ys. batch = xs @ t # ys \<and> question_exists d (sub_question_id t)
            \<and> (\<forall>t' \<in> set ys. sub_question_id t' \<noteq> sub_question_id t)
          \<longrightarrow> (\<exists>a k. filter (answer_of (p_id p) (sub_question_id t)) (user_answers d') = [a]
                 \<and> ua_answer a = Some (sub_answer t) \<and> ua_rating a = sub_rating t
                 \<and> ua_submitted_at a = Some (fst (resolve_submitted_at F now k (sub_submitted_at t)))
                 \<and> (case find (answer_of (p_id p) (sub_question_id t)) (user_answers d) of
                      Some old \<Rightarrow> ua_id a = ua_id old
                    | None \<Rightarrow> ua_feedback a = None \<and> \<not> ua_feedback_generated a)))"
proof -
  let ?u = "p_id p"
  let ?fin = "submit_loop F now ?u (d, [], 0) batch"
  let ?d' = "fst ?fin"
  let ?resp = "\<lparr>resp_saved_count = length (fst (snd ?fin)), resp_answers = fst (snd ?fin)\<rparr>"
  have r: "submit_answers F now batch (IsProfile p) d = Inr (?resp, ?d')"
    by (rule submit_answers_profile)
  have inv': "one_answer_per_pair (user_answers ?d')"
    using submit_loop_invariant [of "(d, [], 0)" F now ?u batch] inv by simp
  have le: "\<forall>u q. length (filter (answer_of u q) (user_answers ?d')) \<le> 1"
    using one_answer_per_pair_le1 [OF inv'] by blast
  have kr: "keeps_rows (user_answers d) (user_answers ?d')"
    using submit_loop_keeps_rows [of "(d, [], 0)" F now ?u batch] by simp
  have latest: "\<exists>a k. filter (answer_of ?u (sub_question_id t)) (user_answers ?d') = [a]
                 \<and> ua_answer a = Some (sub_answer t) \<and> ua_rating a = sub_rating t
                 \<and> ua_submitted_at a = Some (fst (resolve_submitted_at F now k (sub_submitted_at t)))
                 \<and> (case find (answer_of ?u (sub_question_id t)) (user_answers d) of
                      Some old \<Rightarrow> ua_id a = ua_id old
                    | None \<Rightarrow> ua_feedback a = None \<and> \<not> ua_feedback_generated a)"
    if b: "batch = xs @ t # ys" and v: "question_exists d (sub_question_id t)"
      and l: "\<forall>t' \<in> set ys. sub_question_id t' \<noteq> sub_question_id t" for xs t ys
  proof -
    let ?P = "answer_of ?u (sub_question_id t)"
    obtain a k where a: "find ?P (user_answers ?d') = Some a"
      "ua_answer a = Some (sub_answer t)" "ua_rating a = sub_rating t"
      "ua_submitted_at a = Some (fst (resolve_submitted_at F now k (sub_submitted_at t)))"
      using submit_loop_last_for_question [OF v l, of ?u F now "[]" 0 xs] b by blast
    have single: "filter ?P (user_answers ?d') = [a]"
      using find_filter_single [OF a(1)] le by blast
    have am: "a \<in> set (user_answers ?d')" and ap: "?P a"
      using find_Some_mem [OF a(1)] by simp_all
    have origin: "case find ?P (user_answers d) of
                      Some old \<Rightarrow> ua_id a = ua_id old
                    | None \<Rightarrow> ua_feedback a = None \<and> \<not> ua_feedback_generated a"
    proof (cases "find ?P (user_answers d)")
      case None
      have "\<not> (\<exists>old \<in> set (user_answers d). frame old = frame a)"
      proof
        assume "\<exists>old \<in> set (user_answers d). frame old = frame a"
        then obtain old where o: "old \<in> set (user_answers d)" "frame old = frame a" by blast
        then have "?P old" using ap answer_of_frame by blast
        then show False using find_None_no_mem [OF None o(1)] by simp
      qed
      then have "ua_feedback a = None \<and> \<not> ua_feedback_generated a"
        using keeps_rows_origin [OF kr am] by blast
      then show ?thesis using None by simp
    next
      case (Some old)
      then have o: "old \<in> set (user_answers d)" "?P old" using find_Some_mem by fastforce+
      obtain a' where a': "a' \<in> set (user_answers ?d')" "frame a' = frame old"
        using keeps_rows_frame_mem [OF kr o(1)] by blast
      then have "?P a'" using o(2) answer_of_frame by blast
      then have "a' \<in> set (filter ?P (user_answers ?d'))" using a'(1) by simp
      then have "a' = a" using single by simp
      then show ?thesis using Some a'(2) by (simp add: frame_def)
    qed
    show ?thesis using single a(2,3,4) origin by blast
  qed
  show ?thesis
    using r inv' le latest by blast
qed


theorem submit_answers_upsert_witness:
  "one_answer_per_pair (user_answers ex_db) \<and>
   (\<exists>resp d'. submit_answers ex_fromisoformat ex_now
        [ex_submit 1 ''first'' (Some 2) None,
         ex_submit 1 ''second'' (Some 3) (Some ''2024-05-01T10:00:00Z''),
         ex_submit 2 ''other'' None None] (IsProfile ex_profile) ex_db = Inr (resp, d')
      \<and> one_answer_per_pair (user_answers d')
      \<and> (\<exists>a. filter (answer_of ''u1'' 1) (user_answers d') = [a]
             \<and> ua_answer a = Some ''second'' \<and> ua_rating a = Some 3 \<and> ua_id a = 1))"
proof -
  let ?t1 = "ex_submit 1 ''first'' (Some 2) None"
  let ?t2 = "ex_submit 1 ''second'' (Some 3) (Some ''2024-05-01T10:00:00Z'')"
  let ?t3 = "ex_submit 2 ''other'' None None"
  have inv: "one_answer_per_pair (user_answers ex_db)"
    by (simp add: one_answer_per_pair_def ex_defs)
  obtain resp d' where r: "submit_answers ex_fromisoformat ex_now [?t1, ?t2, ?t3] (IsProfile ex_profile) ex_db
        = Inr (resp, d')"
    and inv': "one_answer_per_pair (user_answers d')"
    and latest: "\<forall>xs t ys. [?t1, ?t2, ?t3] = xs @ t # ys \<and> question_exists ex_db (sub_question_id t)
            \<and> (\<forall>t' \<in> set ys. sub_question_id t' \<noteq> sub_question_id t)
          \<longrightarrow> (\<exists>a k. filter (answer_of (p_id ex_profile) (sub_question_id t)) (user_answers d') = [a]
                 \<and> ua_answer a = Some (sub_answer t) \<and> ua_rating a = sub_rating t
                 \<and> ua_submitted_at a
                      = Some (fst (resolve_submitted_at ex_fromisoformat ex_now k (sub_submitted_at t)))
                 \<and> (case find (answer_of (p_id ex_profile) (sub_question_id t)) (user_answers ex_db) of
                      Some old \<Rightarrow> ua_id a = ua_id old
                    | None \<Rightarrow> ua_feedback a = None \<and> \<not> ua_feedback_generated a))"
    using submit_answers_upsert [OF inv, of ex_fromisoformat ex_now "[?t1, ?t2, ?t3]" ex_profile]
    by blast
  have pre: "[?t1, ?t2, ?t3] = [?t1] @ ?t2 # [?t3] \<and> question_exists ex_db (sub_question_id ?t2)
            \<and> (\<forall>t' \<in> set [?t3]. sub_question_id t' \<noteq> sub_question_id ?t2)"
    by (simp add: question_exists_def ex_defs)
  obtain a where a: "filter (answer_of (p_id ex_profile) (sub_question_id ?t2)) (user_answers d') = [a]"
    "ua_answer a = Some (sub_answer ?t2)" "ua_rating a = sub_rating ?t2"
    "case find (answer_of (p_id ex_profile) (sub_question_id ?t2)) (user_answers ex_db) of
                      Some old \<Rightarrow> ua_id a = ua_id old
                    | None \<Rightarrow> ua_feedback a = None \<and> \<not> ua_feedback_generated a"
    using latest pre by blast
  have "filter (answer_of ''u1'' 1) (user_answers d') = [a]"
    "ua_answer a = Some ''second''" "ua_rating a = Some 3" "ua_id a = 1"
    using a by (simp_all add: answer_of_def ex_defs)
  then show ?thesis using inv r inv' by blast
qed

lemma submit_loop_skip:
  assumes "\<not> question_exists (fst st) (sub_question_id t)"
  shows "submit_loop F now u st (xs @ t # ys) = submit_loop F now u st (xs @ ys)"
proof -
  obtain d1 s1 k1 where st1: "submit_loop F now u st xs = (d1, s1, k1)"
    by (cases "submit_loop F now u st xs")
  have "questions d1 = questions (fst st)"
    using submit_loop_questions [of F now u st xs] st1 by simp
  then have "\<not> question_exists d1 (sub_question_id t)"
    using assms by (simp add: question_exists_def)
  then have "submit_one F now u (d1, s1, k1) t = (d1, s1, k1)"
    by (rule submit_one_skip)
  then show ?thesis by (simp add: submit_loop_append st1)
qed

lemma length_filter_disj:
  "(\<And>x. x \<in> set xs \<Longrightarrow> \<not> (P x \<and> Q x))
     \<Longrightarrow> length (filter (\<lambda>x. P x \<or> Q x) xs) = length (filter P xs) + length (filter Q xs)"
  by (induction xs) auto

lemma length_filter_keys:
  assumes "distinct qs" "\<And>q. q \<in> set qs \<Longrightarrow> length (filter (answer_of u q) rows) = 1"
  shows "length (filter (\<lambda>a. \<exists>q \<in> set qs. answer_of u q a) rows) = length qs"
  using assms
proof (induction qs)
  case Nil
  show ?case by simp
next
  case (Cons q qs)
  have disj: "\<not> (answer_of u q x \<and> (\<exists>q' \<in> set qs. answer_of u q' x))" for x
    using Cons.prems(1) by (auto simp: answer_of_def)
  have "filter (\<lambda>a. \<exists>q' \<in> set (q # qs). answer_of u q' a) rows
          = filter (\<lambda>a. answer_of u q a \<or> (\<exists>q' \<in> set qs. answer_of u q' a)) rows"
    by simp
  then have "length (filter (\<lambda>a. \<exists>q' \<in> set (q # qs). answer_of u q' a) rows)
          = length (filter (answer_of u q) rows) + length (filter (\<lambda>a. \<exists>q' \<in> set qs. answer_of u q' a) rows)"
    using length_filter_disj [of rows "answer_of u q" "\<lambda>a. \<exists>q' \<in> set qs. answer_of u q' a"] disj
    by simp
  then show ?case using Cons by simp
qed

lemma saved_rows_filter_ge1:
  assumes "saved_rows u rows saved" "q \<in> set (map fst saved)"
  shows "1 \<le> length (filter (answer_of u q) rows)"
proof -
  obtain i where "(q, i) \<in> set saved" using assms(2) by auto
  then obtain a where "a \<in> set rows" "answer_of u q a"
    using assms(1) by (auto simp: saved_rows_def)
  then have "a \<in> set (filter (answer_of u q) rows)" by simp
  then show ?thesis by (metis One_nat_def Suc_leI length_pos_if_in_set)
qed

text \<open>
  Claim C4. A tuple whose question does not exist is skipped and the batch goes on: the
  reported pairs are the question ids of the tuples with an existing question, in order,
  so a batch of N tuples with one unknown question reports N - 1 pairs; every reported
  pair is a stored row of the user for that question; the request has the same response
  and leaves the same store as the batch without the skipped tuple; and when the accepted
  tuples are for different questions, the user's stored answers to those questions are
  exactly as many as the accepted tuples.
\<close>

theorem submit_answers_skips_unknown_questions:
  "\<exists>resp d'. submit_answers F now batch (IsProfile p) d = Inr (resp, d')
     \<and> map fst (resp_answers resp)
         = map sub_question_id [t \<leftarrow> batch. question_exists d (sub_question_id t)]
     \<and> resp_saved_count resp = length (resp_answers resp)
     \<and> (length [t \<leftarrow> batch. \<not> question_exists d (sub_question_id t)] = 1
          \<longrightarrow> length (resp_answers resp) = length batch - 1)
     \<and> saved_rows (p_id p) (user_answers d') (resp_answers resp)
     \<and> (\<forall>xs t ys. batch = xs @ t # ys \<and> \<not> question_exists d (sub_question_id t)
          \<longrightarrow> submit_answers F now (xs @ ys) (IsProfile p) d = Inr (resp, d'))
     \<and> (one_answer_per_pair (user_answers d)
          \<and> distinct (map sub_question_id [t \<leftarrow> batch. question_exists d (sub_question_id t)])
          \<longrightarrow> length [a \<leftarrow> user_answers d'.
                        \<exists>t \<in> set batch. question_exists d (sub_question_id t)
                           \<and> answer_of (p_id p) (sub_question_id t) a]
               = length [t \<leftarrow> batch. question_exists d (sub_question_id t)])"
proof -
  let ?u = "p_id p"
  let ?valid = "\<lambda>t. question_exists d (sub_question_id t)"
  let ?fin = "submit_loop F now ?u (d, [], 0) batch"
  let ?d' = "fst ?fin"
  let ?saved = "fst (snd ?fin)"
  let ?resp = "\<lparr>resp_saved_count = length ?saved, resp_answers = ?saved\<rparr>"
  have r: "submit_answers F now batch (IsProfile p) d = Inr (?resp, ?d')"
    by (rule submit_answers_profile)
  have s: "map fst ?saved = map sub_question_id (filter ?valid batch)"
    and sr: "saved_rows ?u (user_answers ?d') ?saved"
    using submit_loop_saved [of ?u "(d, [], 0)" F now batch] by (simp_all add: saved_rows_def)
  have len: "length ?saved = length (filter ?valid batch)"
    using s by (metis length_map)
  have one: "length ?saved = length batch - 1"
    if "length [t \<leftarrow> batch. \<not> ?valid t] = 1"
  proof -
    have "length (filter ?valid batch) + length [t \<leftarrow> batch. \<not> ?valid t] = length batch"
      using sum_length_filter_compl [of ?valid batch] by simp
    then show ?thesis using that len by simp
  qed
  have skip: "submit_answers F now (xs @ ys) (IsProfile p) d = Inr (?resp, ?d')"
    if "batch = xs @ t # ys" "\<not> ?valid t" for xs t ys
  proof -
    have "submit_loop F now ?u (d, [], 0) (xs @ t # ys) = submit_loop F now ?u (d, [], 0) (xs @ ys)"
      using that(2) by (intro submit_loop_skip) simp
    then show ?thesis using that(1) by (simp add: submit_answers_profile)
  qed
  have cnt: "length [a \<leftarrow> user_answers ?d'. \<exists>t \<in> set batch. ?valid t \<and> answer_of ?u (sub_question_id t) a]
               = length (filter ?valid batch)"
    if inv: "one_answer_per_pair (user_answers d)"
      and dist: "distinct (map sub_question_id (filter ?valid batch))"
  proof -
    let ?qs = "map sub_question_id (filter ?valid batch)"
    have inv': "one_answer_per_pair (user_answers ?d')"
      using submit_loop_invariant [of "(d, [], 0)" F now ?u batch] inv by simp
    have "length (filter (answer_of ?u q) (user_answers ?d')) = 1" if "q \<in> set ?qs" for q
    proof -
      have "q \<in> set (map fst ?saved)" using that s by simp
      then have "1 \<le> length (filter (answer_of ?u q) (user_answers ?d'))"
        using saved_rows_filter_ge1 [OF sr] by blast
      moreover have "length (filter (answer_of ?u q) (user_answers ?d')) \<le> 1"
        using one_answer_per_pair_le1 [OF inv'] by blast
      ultimately show ?thesis by simp
    qed
    then have "length (filter (\<lambda>a. \<exists>q \<in> set ?qs. answer_of ?u q a) (user_answers ?d')) = length ?qs"
      using length_filter_keys [OF dist] by blast
    moreover have "(\<lambda>a. \<exists>q \<in> set ?qs. answer_of ?u q a)
                     = (\<lambda>a. \<exists>t \<in> set batch. ?valid t \<and> answer_of ?u (sub_question_id t) a)"
      by (auto simp: fun_eq_iff)
    ultimately show ?thesis by simp
  qed
  show ?thesis
    using r s one sr skip cnt by (intro exI [of _ ?resp] exI [of _ ?d']) simp
qed

theorem submit_answers_skips_unknown_questions_witness:
  "\<exists>resp d'. submit_answers ex_fromisoformat ex_now
        [ex_submit 2 ''a'' (Some 1) None, ex_submit 99 ''b'' None None, ex_submit 3 ''c'' (Some (- 1)) None]
        (IsProfile ex_profile) ex_db = Inr (resp, d')
     \<and> map fst (resp_answers resp) = [2, 3]
     \<and> resp_saved_count resp = 2
     \<and> saved_rows ''u1'' (user_answers d') (resp_answers resp)
     \<and> submit_answers ex_fromisoformat ex_now
          [ex_submit 2 ''a'' (Some 1) None, ex_submit 3 ''c'' (Some (- 1)) None]
          (IsProfile ex_profile) ex_db = Inr (resp, d')
     \<and> length [a \<leftarrow> user_answers d'. answer_of ''u1'' 2 a \<or> answer_of ''u1'' 3 a] = 2"
proof -
  let ?t1 = "ex_submit 2 ''a'' (Some 1) None"
  let ?t2 = "ex_submit 99 ''b'' None None"
  let ?t3 = "ex_submit 3 ''c'' (Some (- 1)) None"
  let ?batch = "[?t1, ?t2, ?t3]"
  let ?valid = "\<lambda>t. question_exists ex_db (sub_question_id t)"
  have v: "?valid ?t1" "\<not> ?valid ?t2" "?valid ?t3"
    by (simp_all add: question_exists_def ex_defs)
  have f: "filter ?valid ?batch = [?t1, ?t3]" "[t \<leftarrow> ?batch. \<not> ?valid t] = [?t2]"
    using v by simp_all
  obtain resp d' where r: "submit_answers ex_fromisoformat ex_now ?batch (IsProfile ex_profile) ex_db
        = Inr (resp, d')"
    and m: "map fst (resp_answers resp) = map sub_question_id (filter ?valid ?batch)"
    and c: "resp_saved_count resp = length (resp_answers resp)"
    and n: "length [t \<leftarrow> ?batch. \<not> ?valid t] = 1 \<longrightarrow> length (resp_answers resp) = length ?batch - 1"
    and s: "saved_rows (p_id ex_profile) (user_answers d') (resp_answers resp)"
    and k: "\<forall>xs t ys. ?batch = xs @ t # ys \<and> \<not> ?valid t
          \<longrightarrow> submit_answers ex_fromisoformat ex_now (xs @ ys) (IsProfile ex_profile) ex_db = Inr (resp, d')"
    and l: "one_answer_per_pair (user_answers ex_db)
          \<and> distinct (map sub_question_id (filter ?valid ?batch))
          \<longrightarrow> length [a \<leftarrow> user_answers d'.
                        \<exists>t \<in> set ?batch. ?valid t \<and> answer_of (p_id ex_profile) (sub_question_id t) a]
               = length (filter ?valid ?batch)"
    using submit_answers_skips_unknown_questions [of ex_fromisoformat ex_now ?batch ex_profile ex_db]
    by blast
  have 1: "map fst (resp_answers resp) = [2, 3]"
    using m f by (simp add: ex_defs)
  have 2: "resp_saved_count resp = 2"
    using c n f by simp
  have 3: "saved_rows ''u1'' (user_answers d') (resp_answers resp)"
    using s by (simp add: ex_defs)
  have "?batch = [?t1] @ ?t2 # [?t3] \<and> \<not> ?valid ?t2" using v by simp
  then have "submit_answers ex_fromisoformat ex_now ([?t1] @ [?t3]) (IsProfile ex_profile) ex_db = Inr (resp, d')"
    using k by blast
  then have 4: "submit_answers ex_fromisoformat ex_now [?t1, ?t3] (IsProfile ex_profile) ex_db = Inr (resp, d')"
    by simp
  have "one_answer_per_pair (user_answers ex_db) \<and> distinct (map sub_question_id (filter ?valid ?batch))"
    unfolding f by (simp add: one_answer_per_pair_def ex_defs)
  then have "length [a \<leftarrow> user_answers d'.
                        \<exists>t \<in> set ?batch. ?valid t \<and> answer_of (p_id ex_profile) (sub_question_id t) a]
               = length (filter ?valid ?batch)"
    using l by blast
  moreover have "(\<lambda>a. \<exists>t \<in> set ?batch. ?valid t \<and> answer_of (p_id ex_profile) (sub_question_id t) a)
      = (\<lambda>a. answer_of ''u1'' 2 a \<or> answer_of ''u1'' 3 a)"
    using v by (auto simp: fun_eq_iff ex_submit_def ex_profile_def)
  ultimately have 5: "length [a \<leftarrow> user_answers d'. answer_of ''u1'' 2 a \<or> answer_of ''u1'' 3 a] = 2"
    using f by simp
  show ?thesis
    by (rule exI [of _ resp], rule exI [of _ d']) (simp add: r 1 2 3 4 5)
qed

lemma replace_Z_append: "replace_Z (a @ b) = replace_Z a @ replace_Z b"
  by (simp add: replace_Z_def)

lemma replace_Z_none: "CHR ''Z'' \<notin> set s \<Longrightarrow> replace_Z s = s"
  by (induction s) (auto simp: replace_Z_def)

lemma replace_Z_trailing: "CHR ''Z'' \<notin> set s \<Longrightarrow> replace_Z (s @ ''Z'') = s @ ''+00:00''"
  by (simp add: replace_Z_append replace_Z_none) (simp add: replace_Z_def)

text \<open>
  Claim C5. The stored \<^verbatim>\<open>submitted_at\<close> of a tuple: the server time when the field is
  absent; the parsed value when the text, with \<^verbatim>\<open>Z\<close> replaced by \<^verbatim>\<open>+00:00\<close>, is
  accepted by the parser (so a trailing \<^verbatim>\<open>Z\<close> reads as the offset \<^verbatim>\<open>+00:00\<close>), or else
  when the text as it is is accepted; the server time when the text is empty or rejected
  both ways. The request of a profile never fails, whatever the timestamps are, and the
  row of the tuple carries the timestamp so resolved.
\<close>

theorem submitted_at_resolution:
  "fst (resolve_submitted_at F now k None) = now k
   \<and> (s \<noteq> [] \<and> F (replace_Z s) = Some dt \<longrightarrow> fst (resolve_submitted_at F now k (Some s)) = dt)
   \<and> (CHR ''Z'' \<notin> set s0 \<and> F (s0 @ ''+00:00'') = Some dt
        \<longrightarrow> fst (resolve_submitted_at F now k (Some (s0 @ ''Z''))) = dt)
   \<and> (s \<noteq> [] \<and> F (replace_Z s) = None \<and> F s = Some dt
        \<longrightarrow> fst (resolve_submitted_at F now k (Some s)) = dt)
   \<and> (s = [] \<or> (F (replace_Z s) = None \<and> F s = None)
        \<longrightarrow> fst (resolve_submitted_at F now k (Some s)) = now k)
   \<and> (\<exists>resp d'. submit_answers F now batch (IsProfile p) d = Inr (resp, d')
        \<and> (\<forall>xs t ys. batch = xs @ t # ys \<and> question_exists d (sub_question_id t)
               \<and> (\<forall>t' \<in> set ys. sub_question_id t' \<noteq> sub_question_id t)
             \<longrightarrow> (\<exists>a j. find (answer_of (p_id p) (sub_question_id t)) (user_answers d') = Some a
                    \<and> ua_submitted_at a
                        = Some (fst (resolve_submitted_at F now j (sub_submitted_at t))))))"
proof -
  have 1: "fst (resolve_submitted_at F now k None) = now k"
    by (simp add: resolve_submitted_at_def)
  have 2: "fst (resolve_submitted_at F now k (Some s)) = dt" if "s \<noteq> []" "F (replace_Z s) = Some dt"
    using that by (simp add: resolve_submitted_at_def)
  have 3: "fst (resolve_submitted_at F now k (Some (s0 @ ''Z''))) = dt"
    if "CHR ''Z'' \<notin> set s0" "F (s0 @ ''+00:00'') = Some dt"
    using that by (simp add: resolve_submitted_at_def replace_Z_trailing)
  have 4: "fst (resolve_submitted_at F now k (Some s)) = dt"
    if "s \<noteq> []" "F (replace_Z s) = None" "F s = Some dt"
    using that by (simp add: resolve_submitted_at_def)
  have 5: "fst (resolve_submitted_at F now k (Some s)) = now k"
    if "s = [] \<or> (F (replace_Z s) = None \<and> F s = None)"
    using that by (auto simp: resolve_submitted_at_def)
  have 6: "\<exists>a j. find (answer_of (p_id p) (sub_question_id t))
                    (user_answers (fst (submit_loop F now (p_id p) (d, [], 0) batch))) = Some a
                  \<and> ua_submitted_at a = Some (fst (resolve_submitted_at F now j (sub_submitted_at t)))"
    if "batch = xs @ t # ys" "question_exists d (sub_question_id t)"
      "\<forall>t' \<in> set ys. sub_question_id t' \<noteq> sub_question_id t" for xs t ys
    using submit_loop_last_for_question [OF that(2,3), of "p_id p" F now "[]" 0 xs] that(1) by blast
  have 7: "\<exists>resp d'. submit_answers F now batch (IsProfile p) d = Inr (resp, d')
        \<and> (\<forall>xs t ys. batch = xs @ t # ys \<and> question_exists d (sub_question_id t)
               \<and> (\<forall>t' \<in> set ys. sub_question_id t' \<noteq> sub_question_id t)
             \<longrightarrow> (\<exists>a j. find (answer_of (p_id p) (sub_question_id t)) (user_answers d') = Some a
                    \<and> ua_submitted_at a
                        = Some (fst (resolve_submitted_at F now j (sub_submitted_at t)))))"
    using 6 by (simp add: submit_answers_profile) blast
  show ?thesis
    using 1 2 3 4 5 7 by blast
qed

theorem submitted_at_resolution_witness:
  "fst (resolve_submitted_at ex_fromisoformat ex_now 0 None) = Datetime 1720000000
   \<and> fst (resolve_submitted_at ex_fromisoformat ex_now 0 (Some ''2024-05-01T10:00:00Z''))
       = Datetime 1714557600
   \<and> fst (resolve_submitted_at ex_fromisoformat ex_now 0 (Some ''2024-05-01Z10:00:00''))
       = Datetime 1714557600
   \<and> fst (resolve_submitted_at ex_fromisoformat ex_now 3 (Some ''not-a-date'')) = Datetime 1720000003
   \<and> (\<exists>resp d' a j. submit_answers ex_fromisoformat ex_now
          [ex_submit 2 ''a'' (Some 1) (Some ''not-a-date'')] (IsProfile ex_profile) ex_db = Inr (resp, d')
        \<and> find (answer_of ''u1'' 2) (user_answers d') = Some a
        \<and> ua_submitted_at a = Some (ex_now j))"
proof -
  let ?F = ex_fromisoformat
  let ?t = "ex_submit 2 ''a'' (Some 1) (Some ''not-a-date'')"
  note inst = submitted_at_resolution [where F = ?F and now = ex_now and p = ex_profile and d = ex_db
      and batch = "[?t]"]
  have 1: "fst (resolve_submitted_at ?F ex_now 0 None) = Datetime 1720000000"
    using inst [where k = 0 and s = "[]" and dt = "Datetime 0" and ?s0.0 = "[]"] by (simp add: ex_now_def)
  have z: "CHR ''Z'' \<notin> set ''2024-05-01T10:00:00'' \<and> ?F (''2024-05-01T10:00:00'' @ ''+00:00'') = Some (Datetime 1714557600)"
    by (simp add: ex_fromisoformat_def)
  have 2: "fst (resolve_submitted_at ?F ex_now 0 (Some ''2024-05-01T10:00:00Z'')) = Datetime 1714557600"
    using inst [where k = 0 and s = "[]" and ?s0.0 = "''2024-05-01T10:00:00''" and dt = "Datetime 1714557600"] z by simp
  have s: "''2024-05-01Z10:00:00'' \<noteq> [] \<and> ?F (replace_Z ''2024-05-01Z10:00:00'') = None
      \<and> ?F ''2024-05-01Z10:00:00'' = Some (Datetime 1714557600)"
    by (simp add: ex_fromisoformat_def replace_Z_def)
  have 3: "fst (resolve_submitted_at ?F ex_now 0 (Some ''2024-05-01Z10:00:00'')) = Datetime 1714557600"
    using inst [where k = 0 and s = "''2024-05-01Z10:00:00''" and dt = "Datetime 1714557600" and ?s0.0 = "[]"] s by simp
  have n: "''not-a-date'' = [] \<or> (?F (replace_Z ''not-a-date'') = None \<and> ?F ''not-a-date'' = None)"
    by (simp add: ex_fromisoformat_def replace_Z_def)
  have 4: "fst (resolve_submitted_at ?F ex_now 3 (Some ''not-a-date'')) = Datetime 1720000003"
    using inst [where k = 3 and s = "''not-a-date''" and dt = "Datetime 0" and ?s0.0 = "[]"] n by (simp add: ex_now_def)
  obtain resp d' where r: "submit_answers ?F ex_now [?t] (IsProfile ex_profile) ex_db = Inr (resp, d')"
    and st: "\<forall>xs t ys. [?t] = xs @ t # ys \<and> question_exists ex_db (sub_question_id t)
               \<and> (\<forall>t' \<in> set ys. sub_question_id t' \<noteq> sub_question_id t)
             \<longrightarrow> (\<exists>a j. find (answer_of (p_id ex_profile) (sub_question_id t)) (user_answers d') = Some a
                    \<and> ua_submitted_at a
                        = Some (fst (resolve_submitted_at ?F ex_now j (sub_submitted_at t))))"
    using inst [where k = 0 and s = "[]" and dt = "Datetime 0" and ?s0.0 = "[]"] by blast
  have "[?t] = [] @ ?t # [] \<and> question_exists ex_db (sub_question_id ?t)
               \<and> (\<forall>t' \<in> set []. sub_question_id t' \<noteq> sub_question_id ?t)"
    by (simp add: question_exists_def ex_defs)
  then obtain a j where a: "find (answer_of (p_id ex_profile) (sub_question_id ?t)) (user_answers d') = Some a"
    "ua_submitted_at a = Some (fst (resolve_submitted_at ?F ex_now j (sub_submitted_at ?t)))"
    using st by blast
  have "fst (resolve_submitted_at ?F ex_now j (Some ''not-a-date'')) = ex_now j"
    using inst [where k = j and s = "''not-a-date''" and dt = "Datetime 0" and ?s0.0 = "[]"] n by simp
  then have 5: "find (answer_of ''u1'' 2) (user_answers d') = Some a \<and> ua_submitted_at a = Some (ex_now j)"
    using a by (simp add: ex_submit_def ex_profile_def)
  have 6: "\<exists>resp d' a j. submit_answers ?F ex_now [?t] (IsProfile ex_profile) ex_db = Inr (resp, d')
        \<and> find (answer_of ''u1'' 2) (user_answers d') = Some a
        \<and> ua_submitted_at a = Some (ex_now j)"
    by (rule exI [of _ resp], rule exI [of _ d'], rule exI [of _ a], rule exI [of _ j])
       (simp add: r 5)
  show ?thesis using 1 2 3 4 6 by simp
qed

lemma keeps_rows_nth:
  assumes "keeps_rows rows rows'" "i < length rows"
  shows "frame (rows' ! i) = frame (rows ! i)"
proof -
  have e: "map frame (take (length rows) rows') = map frame rows"
    and le: "length rows \<le> length rows'"
    using assms(1) by (simp_all add: keeps_rows_def)
  have "frame (rows' ! i) = frame (take (length rows) rows' ! i)"
    using assms(2) by simp
  also have "\<dots> = map frame (take (length rows) rows') ! i"
    using assms(2) le by (simp add: nth_map)
  also have "\<dots> = map frame rows ! i"
    by (simp only: e)
  also have "\<dots> = frame (rows ! i)"
    using assms(2) by simp
  finally show ?thesis .
qed

lemma submit_answer_keeps_rows:
  assumes "submit_answer now question_id answer current_user d = Inr (resp, d')"
  shows "keeps_rows (user_answers d) (user_answers d')"
  using assms
  by (auto simp: submit_answer_def Let_def keeps_rows_refl keeps_rows_insert keeps_rows_update frame_def
      split: option.splits identity.splits)

lemma submit_answers_keeps_rows:
  assumes "submit_answers F now batch current_user d = Inr (resp, d')"
  shows "keeps_rows (user_answers d) (user_answers d')"
proof (cases current_user)
  case (IsUser u)
  then show ?thesis using assms by (simp add: submit_answers_def)
next
  case (IsProfile p)
  then have "d' = fst (submit_loop F now (p_id p) (d, [], 0) batch)"
    using assms by (simp add: submit_answers_profile)
  then show ?thesis
    using submit_loop_keeps_rows [of "(d, [], 0)" F now "p_id p" batch] by simp
qed

text \<open>
  Claim C10. Both submission endpoints leave the id, the user, the question, the feedback
  and \<^verbatim>\<open>feedback_generated\<close> of every stored answer row as they were: an update
  overwrites \<^verbatim>\<open>answer\<close>, \<^verbatim>\<open>rating\<close> and \<^verbatim>\<open>submitted_at\<close> only, so feedback generated for
  the earlier text stays on the row.
\<close>

theorem submission_keeps_feedback:
  "(submit_answers F now batch current_user d = Inr (resp, d') \<longrightarrow>
      length (user_answers d) \<le> length (user_answers d') \<and>
      (\<forall>i < length (user_answers d).
         ua_feedback (user_answers d' ! i) = ua_feedback (user_answers d ! i) \<and>
         ua_feedback_generated (user_answers d' ! i) = ua_feedback_generated (user_answers d ! i) \<and>
         ua_id (user_answers d' ! i) = ua_id (user_answers d ! i) \<and>
         ua_user_id (user_answers d' ! i) = ua_user_id (user_answers d ! i) \<and>
         ua_question_id (user_answers d' ! i) = ua_question_id (user_answers d ! i)))
   \<and> (submit_answer now question_id answer current_user d = Inr (resp1, d1) \<longrightarrow>
      length (user_answers d) \<le> length (user_answers d1) \<and>
      (\<forall>i < length (user_answers d).
         ua_feedback (user_answers d1 ! i) = ua_feedback (user_answers d ! i) \<and>
         ua_feedback_generated (user_answers d1 ! i) = ua_feedback_generated (user_answers d ! i) \<and>
         ua_id (user_answers d1 ! i) = ua_id (user_answers d ! i) \<and>
         ua_user_id (user_answers d1 ! i) = ua_user_id (user_answers d ! i) \<and>
         ua_question_id (user_answers d1 ! i) = ua_question_id (user_answers d ! i)))"
proof -
  have gen: "length rows \<le> length rows' \<and>
      (\<forall>i < length rows.
         ua_feedback (rows' ! i) = ua_feedback (rows ! i) \<and>
         ua_feedback_generated (rows' ! i) = ua_feedback_generated (rows ! i) \<and>
         ua_id (rows' ! i) = ua_id (rows ! i) \<and>
         ua_user_id (rows' ! i) = ua_user_id (rows ! i) \<and>
         ua_question_id (rows' ! i) = ua_question_id (rows ! i))"
    if kr: "keeps_rows rows rows'" for rows rows'
  proof -
    have "frame (rows' ! i) = frame (rows ! i)" if "i < length rows" for i
      using keeps_rows_nth [OF kr that] .
    then show ?thesis using kr by (simp add: keeps_rows_def frame_def)
  qed
  show ?thesis
    using gen [OF submit_answers_keeps_rows] gen [OF submit_answer_keeps_rows] by blast
qed

theorem submission_keeps_feedback_witness:
  "(\<exists>resp d'. submit_answers ex_fromisoformat ex_now [ex_submit 1 ''new text'' (Some 3) None]
        (IsProfile ex_profile) ex_db = Inr (resp, d')
      \<and> map ua_answer (user_answers d') = [Some ''new text'']
      \<and> ua_feedback (user_answers d' ! 0) = Some ''Well argued.''
      \<and> ua_feedback_generated (user_answers d' ! 0))
   \<and> (\<exists>resp d'. submit_answer ex_now 1 \<lparr>ac_answer = ''new text'', ac_rating = Some 3\<rparr>
        (IsProfile ex_profile) ex_db = Inr (resp, d')
      \<and> map ua_answer (user_answers d') = [Some ''new text'']
      \<and> ua_feedback (user_answers d' ! 0) = Some ''Well argued.''
      \<and> ua_feedback_generated (user_answers d' ! 0))"
proof -
  let ?batch = "[ex_submit 1 ''new text'' (Some 3) None]"
  let ?ac = "\<lparr>ac_answer = ''new text'', ac_rating = Some 3\<rparr>"
  obtain resp d' where r: "submit_answers ex_fromisoformat ex_now ?batch (IsProfile ex_profile) ex_db = Inr (resp, d')"
    and a: "map ua_answer (user_answers d') = [Some ''new text'']"
    by (simp add: submit_answers_def submit_one_def resolve_submitted_at_def answer_of_def ex_defs)
  obtain resp1 d1 where r1: "submit_answer ex_now 1 ?ac (IsProfile ex_profile) ex_db = Inr (resp1, d1)"
    and a1: "map ua_answer (user_answers d1) = [Some ''new text'']"
    by (simp add: submit_answer_def answer_of_def ex_defs)
  note inst = submission_keeps_feedback [of ex_fromisoformat ex_now ?batch "IsProfile ex_profile" ex_db resp d'
      1 ?ac resp1 d1]
  have i: "0 < length (user_answers ex_db)" by (simp add: ex_defs)
  have "ua_feedback (user_answers d' ! 0) = ua_feedback (user_answers ex_db ! 0)"
    "ua_feedback_generated (user_answers d' ! 0) = ua_feedback_generated (user_answers ex_db ! 0)"
    "ua_feedback (user_answers d1 ! 0) = ua_feedback (user_answers ex_db ! 0)"
    "ua_feedback_generated (user_answers d1 ! 0) = ua_feedback_generated (user_answers ex_db ! 0)"
    using inst r r1 i by blast+
  then have "ua_feedback (user_answers d' ! 0) = Some ''Well argued.''"
    "ua_feedback_generated (user_answers d' ! 0)"
    "ua_feedback (user_answers d1 ! 0) = Some ''Well argued.''"
    "ua_feedback_generated (user_answers d1 ! 0)"
    by (simp_all add: ex_defs)
  then have A: "\<exists>resp d'. submit_answers ex_fromisoformat ex_now ?batch (IsProfile ex_profile) ex_db = Inr (resp, d')
      \<and> map ua_answer (user_answers d') = [Some ''new text'']
      \<and> ua_feedback (user_answers d' ! 0) = Some ''Well argued.''
      \<and> ua_feedback_generated (user_answers d' ! 0)"
    and B: "\<exists>resp d'. submit_answer ex_now 1 ?ac (IsProfile ex_profile) ex_db = Inr (resp, d')
      \<and> map ua_answer (user_answers d') = [Some ''new text'']
      \<and> ua_feedback (user_answers d' ! 0) = Some ''Well argued.''
      \<and> ua_feedback_generated (user_answers d' ! 0)"
    using r a r1 a1 by auto
  show ?thesis using A B by (rule conjI)
qed

section \<open>The collective report\<close>

lemma report_loop_no_answers:
  assumes "\<forall>q \<in> set qs. \<forall>a \<in> set (user_answers d). ua_question_id a \<noteq> Some (q_id q)"
  shows "report_loop chat d idx qs report calls = (Inr report, calls)"
  using assms
proof (induction qs arbitrary: idx)
  case Nil
  show ?case by simp
next
  case (Cons q qs)
  have "[a \<leftarrow> user_answers d. ua_question_id a = Some (q_id q)] = []"
    using Cons.prems by (simp add: filter_empty_conv)
  then show ?case using Cons by simp
qed

text \<open>
  Claim C3, as the code has it. When there is at least one question and no question has
  an answer, the report generation returns the explicit "no data" result and calls neither
  the text generation nor the e-mail relay. When there is no question at all, the request
  fails with the error 404 "No questions found", again without any call.
\<close>

theorem report_without_answers:
  "(questions d \<noteq> []
      \<and> (\<forall>q \<in> set (questions d). \<forall>a \<in> set (user_answers d). ua_question_id a \<noteq> Some (q_id q))
     \<longrightarrow> generate_collective_feedback_report chat env smtp d
           = (Inr (NoData ''No data available for collective report.''), []))
   \<and> (questions d = []
     \<longrightarrow> generate_collective_feedback_report chat env smtp d
           = (Inl (HTTPException 404 ''No questions found''), []))"
proof -
  have "generate_collective_feedback_report chat env smtp d
           = (Inr (NoData ''No data available for collective report.''), [])"
    if "questions d \<noteq> []"
      "\<forall>q \<in> set (questions d). \<forall>a \<in> set (user_answers d). ua_question_id a \<noteq> Some (q_id q)"
    using that report_loop_no_answers [OF that(2), of chat 1 "[]" "[]"]
    by (simp add: generate_collective_feedback_report_def)
  moreover have "generate_collective_feedback_report chat env smtp d
           = (Inl (HTTPException 404 ''No questions found''), [])" if "questions d = []"
    using that by (simp add: generate_collective_feedback_report_def)
  ultimately show ?thesis by blast
qed

theorem report_without_answers_witness:
  "generate_collective_feedback_report ex_chat ex_env ex_smtp (ex_db\<lparr>user_answers := []\<rparr>)
     = (Inr (NoData ''No data available for collective report.''), [])
   \<and> generate_collective_feedback_report ex_chat ex_env ex_smtp empty_db
     = (Inl (HTTPException 404 ''No questions found''), [])"
proof -
  let ?d = "ex_db\<lparr>user_answers := []\<rparr>"
  have 1: "questions ?d \<noteq> []
      \<and> (\<forall>q \<in> set (questions ?d). \<forall>a \<in> set (user_answers ?d). ua_question_id a \<noteq> Some (q_id q))"
    by (simp add: ex_db_def)
  have 2: "questions empty_db = []" by (simp add: empty_db_def)
  show ?thesis
    using report_without_answers [of ?d ex_chat ex_env ex_smtp] 1
      report_without_answers [of empty_db ex_chat ex_env ex_smtp] 2
    by blast
qed

text \<open>
  On the store without questions the result is the error, not the "no data" result.
\<close>

theorem report_no_questions_counterexample:
  "fst (generate_collective_feedback_report ex_chat ex_env ex_smtp empty_db)
     = Inl (HTTPException 404 ''No questions found'')
   \<and> fst (generate_collective_feedback_report ex_chat ex_env ex_smtp empty_db)
     \<noteq> Inr (NoData ''No data available for collective report.'')"
  by (simp add: generate_collective_feedback_report_def empty_db_def)


section \<open>Visibility\<close>

lemma set_order_by_label: "set (order_by_label rows) = set rows"
  by (auto simp: order_by_label_def)

lemma visible_to_alt:
  "visible_to (Some c) s \<longleftrightarrow> s_company_id s = Some c \<or> s_company_id s = None"
  "visible_to None s"
  by (simp_all add: visible_to_def)

lemma set_get_question_sections:
  "set (get_question_sections current_user d)
     = {s \<in> set (sections d). visible_to (identity_company_id current_user) s}"
  by (cases "identity_company_id current_user")
     (auto simp: get_question_sections_def set_order_by_label company_or_global_sections_def
        visible_to_def)

lemma set_company_questions:
  "set (company_questions company_id d)
     = {q \<in> set (questions d).
          \<exists>s \<in> set (sections d). q_section_id q = Some (s_id s) \<and> visible_to (Some company_id) s}"
proof (cases "company_or_global_sections company_id d = []")
  case True
  then have "\<forall>s \<in> set (sections d). \<not> visible_to (Some company_id) s"
    by (auto simp: company_or_global_sections_def filter_empty_conv visible_to_def)
  then show ?thesis using True by (auto simp: company_questions_def)
next
  case False
  then show ?thesis
    by (auto simp: company_questions_def company_or_global_sections_def visible_to_def
        split: option.splits)
qed

lemma get_question_ids:
  "set (concat (map (\<lambda>v. map qv_question_id (sv_questions v)) (get_question current_user d)))
     = q_id ` {q \<in> set (questions d).
                 \<exists>s \<in> set (sections d). q_section_id q = Some (s_id s)
                    \<and> visible_to (identity_company_id current_user) s}"
proof -
  have "set (concat (map (\<lambda>v. map qv_question_id (sv_questions v)) (get_question current_user d)))
      = (\<Union>s \<in> set (get_question_sections current_user d).
           q_id ` {q \<in> set (questions d). q_section_id q = Some (s_id s)})"
    by (auto simp: get_question_def Let_def)
  then show ?thesis unfolding set_get_question_sections by auto
qed

text \<open>
  Claim C7. The sections shown to a user are those whose company is the user's or NULL,
  and all sections when the user has no company; the questions shown are those of these
  sections. Completion accounting for a company counts the questions of the company's and
  of the global sections. A section with a NULL company is therefore visible, and its
  questions counted, for every user.
\<close>

theorem visible_question_set:
  "set (get_question_sections current_user d)
     = {s \<in> set (sections d). visible_to (identity_company_id current_user) s}
   \<and> set (concat (map (\<lambda>v. map qv_question_id (sv_questions v)) (get_question current_user d)))
     = q_id ` {q \<in> set (questions d).
                 \<exists>s \<in> set (sections d). q_section_id q = Some (s_id s)
                    \<and> visible_to (identity_company_id current_user) s}
   \<and> set (company_questions company_id d)
     = {q \<in> set (questions d).
          \<exists>s \<in> set (sections d). q_section_id q = Some (s_id s) \<and> visible_to (Some company_id) s}
   \<and> (get_users_by_company company_id d = Inr r \<longrightarrow>
        (\<forall>e \<in> set (ubc_users r). uc_total_questions e = length (company_questions company_id d)))
   \<and> (\<forall>s \<in> set (sections d). s_company_id s = None
        \<longrightarrow> s \<in> set (get_question_sections current_user d)
          \<and> s \<in> set (company_or_global_sections company_id d))
   \<and> (identity_company_id current_user = None
        \<longrightarrow> set (get_question_sections current_user d) = set (sections d))"
proof -
  have 4: "\<forall>e \<in> set (ubc_users r). uc_total_questions e = length (company_questions company_id d)"
    if "get_users_by_company company_id d = Inr r"
    using that by (auto simp: get_users_by_company_def user_completion_of_def Let_def split: option.splits)
  have 5: "\<forall>s \<in> set (sections d). s_company_id s = None
        \<longrightarrow> s \<in> set (get_question_sections current_user d)
          \<and> s \<in> set (company_or_global_sections company_id d)"
    unfolding set_get_question_sections
    by (auto simp: visible_to_def company_or_global_sections_def split: option.splits)
  have 6: "set (get_question_sections current_user d) = set (sections d)"
    if "identity_company_id current_user = None"
    unfolding set_get_question_sections using that by (simp add: visible_to_def)
  show ?thesis
    using set_get_question_sections get_question_ids set_company_questions 4 5 6 by blast
qed


theorem visible_question_set_witness:
  "set (map s_id (get_question_sections (IsProfile ex_profile) ex_db)) = {1, 2}
   \<and> set (map s_id (get_question_sections (IsProfile (ex_profile\<lparr>p_company_id := Some 5\<rparr>)) ex_db)) = {1}
   \<and> set (map s_id (get_question_sections (IsProfile (ex_profile\<lparr>p_company_id := None\<rparr>)) ex_db)) = {1, 2}
   \<and> set (concat (map (\<lambda>v. map qv_question_id (sv_questions v))
             (get_question (IsProfile (ex_profile\<lparr>p_company_id := Some 5\<rparr>)) ex_db))) = {1, 2}
   \<and> q_id ` set (company_questions 1 ex_db) = {1, 2, 3}
   \<and> (\<exists>r. get_users_by_company 1 ex_db = Inr r \<and> map uc_total_questions (ubc_users r) = [3])"
proof -
  let ?p5 = "ex_profile\<lparr>p_company_id := Some 5\<rparr>"
  let ?p0 = "ex_profile\<lparr>p_company_id := None\<rparr>"
  obtain r where r: "get_users_by_company 1 ex_db = Inr r" and n: "length (ubc_users r) = 1"
    by (simp add: get_users_by_company_def ex_defs)
  note a = visible_question_set [of "IsProfile ex_profile" ex_db 1 r]
  note b = visible_question_set [of "IsProfile ?p5" ex_db 1 r]
  note c = visible_question_set [of "IsProfile ?p0" ex_db 1 r]
  have s: "sections ex_db = [\<lparr>s_id = 1, s_label = Some ''A'', s_title = Some ''General'', s_company_id = None\<rparr>,
                  \<lparr>s_id = 2, s_label = Some ''B'', s_title = Some ''Acme only'', s_company_id = Some 1\<rparr>]"
    by (simp add: ex_db_def)
  have q: "questions ex_db = [ex_question 1 1, ex_question 2 1, ex_question 3 2]"
    by (simp add: ex_db_def)
  have "set (get_question_sections (IsProfile ex_profile) ex_db)
          = set (filter (visible_to (identity_company_id (IsProfile ex_profile))) (sections ex_db))"
    using a [THEN conjunct1] by simp
  then have 1: "set (map s_id (get_question_sections (IsProfile ex_profile) ex_db)) = {1, 2}"
    by (simp add: s visible_to_def identity_company_id_def ex_profile_def insert_commute)
  have "set (get_question_sections (IsProfile ?p5) ex_db)
          = set (filter (visible_to (identity_company_id (IsProfile ?p5))) (sections ex_db))"
    using b [THEN conjunct1] by simp
  then have 2: "set (map s_id (get_question_sections (IsProfile ?p5) ex_db)) = {1}"
    by (simp add: s visible_to_def identity_company_id_def ex_profile_def)
  have "identity_company_id (IsProfile ?p0) = None" by (simp add: identity_company_id_def)
  then have "set (get_question_sections (IsProfile ?p0) ex_db) = set (sections ex_db)"
    using c by blast
  then have 3: "set (map s_id (get_question_sections (IsProfile ?p0) ex_db)) = {1, 2}"
    by (simp add: s insert_commute)
  have "set (concat (map (\<lambda>v. map qv_question_id (sv_questions v)) (get_question (IsProfile ?p5) ex_db)))
      = q_id ` set (filter (\<lambda>q. \<exists>s \<in> set (sections ex_db). q_section_id q = Some (s_id s)
                    \<and> visible_to (identity_company_id (IsProfile ?p5)) s) (questions ex_db))"
    using b [THEN conjunct2, THEN conjunct1] by simp
  then have 4: "set (concat (map (\<lambda>v. map qv_question_id (sv_questions v))
             (get_question (IsProfile ?p5) ex_db))) = {1, 2}"
    by (simp add: s q visible_to_def identity_company_id_def ex_profile_def ex_question_def insert_commute)
  have "set (company_questions 1 ex_db)
      = set (filter (\<lambda>q. \<exists>s \<in> set (sections ex_db). q_section_id q = Some (s_id s)
                    \<and> visible_to (Some 1) s) (questions ex_db))"
    using a [THEN conjunct2, THEN conjunct2, THEN conjunct1] by simp
  then have 5: "q_id ` set (company_questions 1 ex_db) = {1, 2, 3}"
    by (simp add: s q visible_to_def ex_question_def insert_commute)
  have "\<forall>e \<in> set (ubc_users r). uc_total_questions e = length (company_questions 1 ex_db)"
    using a r by blast
  moreover have "length (company_questions 1 ex_db) = 3"
    by (simp add: company_questions_def company_or_global_sections_def ex_defs)
  ultimately have "map uc_total_questions (ubc_users r) = [3]"
    using n by (cases "ubc_users r") auto
  then have 6: "\<exists>r. get_users_by_company 1 ex_db = Inr r \<and> map uc_total_questions (ubc_users r) = [3]"
    using r by (intro exI [of _ r]) simp
  show ?thesis using 1 2 3 4 5 6 by simp
qed


section \<open>Deleting a company\<close>

text \<open>
  Claim C9. A successful deletion of a company leaves every user, profile and section in
  its table, at its place; the rows that referred to the company have the reference set
  to NULL and are otherwise unchanged, all other rows are unchanged; questions and answers
  are untouched and the company's row is gone.
\<close>

theorem delete_company_nulls_references:
  "delete_company company_id d = Inr (message, d') \<longrightarrow>
     users d' = map (\<lambda>u. if u_company_id u = Some company_id then u\<lparr>u_company_id := None\<rparr> else u) (users d)
   \<and> profiles d' = map (\<lambda>p. if p_company_id p = Some company_id then p\<lparr>p_company_id := None\<rparr> else p)
                      (profiles d)
   \<and> sections d' = map (\<lambda>s. if s_company_id s = Some company_id then s\<lparr>s_company_id := None\<rparr> else s)
                      (sections d)
   \<and> companies d' = [c \<leftarrow> companies d. c_id c \<noteq> company_id]
   \<and> questions d' = questions d \<and> user_answers d' = user_answers d"
proof
  assume a: "delete_company company_id d = Inr (message, d')"
  then obtain company where c: "find (\<lambda>c. c_id c = company_id) (companies d) = Some company"
    by (auto simp: delete_company_def split: option.splits)
  then have id: "c_id company = company_id"
    by (induction "companies d") (auto dest: find_Some_mem)
  have mm: "map (\<lambda>x. if P x then f x else x) (map (\<lambda>x. if P x then f x else x) xs)
            = map (\<lambda>x. if P x then f x else x) xs" if "\<And>x. \<not> P (f x)" for P and f :: "'a \<Rightarrow> 'a" and xs
    using that by (induction xs) auto
  have d': "d' = db_delete_company company_id
      (d\<lparr>users := map (\<lambda>u. if u_company_id u = Some company_id then u\<lparr>u_company_id := None\<rparr> else u) (users d),
         sections := map (\<lambda>s. if s_company_id s = Some company_id then s\<lparr>s_company_id := None\<rparr> else s) (sections d)\<rparr>)"
    using a c id by (simp add: delete_company_def Let_def)
  show "users d' = map (\<lambda>u. if u_company_id u = Some company_id then u\<lparr>u_company_id := None\<rparr> else u) (users d)
   \<and> profiles d' = map (\<lambda>p. if p_company_id p = Some company_id then p\<lparr>p_company_id := None\<rparr> else p)
                      (profiles d)
   \<and> sections d' = map (\<lambda>s. if s_company_id s = Some company_id then s\<lparr>s_company_id := None\<rparr> else s)
                      (sections d)
   \<and> companies d' = [c \<leftarrow> companies d. c_id c \<noteq> company_id]
   \<and> questions d' = questions d \<and> user_answers d' = user_answers d"
    unfolding d' db_delete_company_def by (simp add: mm)
qed


theorem delete_company_nulls_references_witness:
  "\<exists>message d'. delete_company 1 ex_db = Inr (message, d')
     \<and> map u_company_id (users d') = [None] \<and> map u_id (users d') = [7]
     \<and> map p_company_id (profiles d') = [None, None] \<and> map p_id (profiles d') = [''u1'', ''u2'']
     \<and> map s_company_id (sections d') = [None, None] \<and> map s_id (sections d') = [1, 2]
     \<and> companies d' = []"
proof -
  obtain message d' where r: "delete_company 1 ex_db = Inr (message, d')"
    by (simp add: delete_company_def Let_def ex_defs)
  note t = delete_company_nulls_references [of 1 ex_db message d']
  have "map u_company_id (users d') = [None]" "map u_id (users d') = [7]"
    "map p_company_id (profiles d') = [None, None]" "map p_id (profiles d') = [''u1'', ''u2'']"
    "map s_company_id (sections d') = [None, None]" "map s_id (sections d') = [1, 2]"
    "companies d' = []"
    using t r by (simp_all add: ex_defs)
  then show ?thesis
    by (intro exI [of _ message] exI [of _ d']) (simp add: r)
qed


section \<open>Completion accounting\<close>

lemma strip_Nil [simp]: "strip [] = []"
  by (simp add: strip_def)

lemma is_complete_iff: "is_complete a \<longleftrightarrow> cannot_answer a \<or> substantive a"
  by (cases "ua_answer a"; cases "ua_rating a")
     (auto simp: is_complete_def is_cant_answer_def has_rating_def has_answer_text_def
        cannot_answer_def substantive_def blank_def)

lemma find_filter: "find P (filter Q xs) = find (\<lambda>x. Q x \<and> P x) xs"
  by (induction xs) auto

lemma all_complete_iff:
  "all_complete ua qs \<longleftrightarrow>
     (\<forall>q \<in> set qs. \<exists>a. find (\<lambda>a. ua_question_id a = Some (q_id q)) ua = Some a \<and> is_complete a)"
  by (induction qs) (auto split: option.splits)

lemma find_user_answers:
  "find (\<lambda>a. ua_question_id a = Some q) [a \<leftarrow> rows. ua_user_id a = Some u] = find (answer_of u q) rows"
proof -
  have "(\<lambda>x. ua_user_id x = Some u \<and> ua_question_id x = Some q) = answer_of u q"
    by (auto simp: answer_of_def fun_eq_iff)
  then show ?thesis by (simp add: find_filter)
qed

lemma invariant_find:
  assumes "one_answer_per_pair rows" "a \<in> set rows" "answer_of u q a"
  shows "find (answer_of u q) rows = Some a"
proof -
  have "a \<in> set (filter (answer_of u q) rows)" using assms(2,3) by simp
  moreover have "length (filter (answer_of u q) rows) \<le> 1"
    using one_answer_per_pair_le1 [OF assms(1)] .
  ultimately have f: "filter (answer_of u q) rows = [a]"
    by (cases "filter (answer_of u q) rows") auto
  obtain b where b: "find (answer_of u q) rows = Some b"
    using f by (cases "find (answer_of u q) rows") (auto simp: find_None_filter)
  then obtain ys where "filter (answer_of u q) rows = b # ys"
    using find_Some_filter [OF b] by blast
  then show ?thesis using f b by simp
qed

lemma exists_answer_iff_find:
  assumes "one_answer_per_pair rows"
  shows "(\<exists>a \<in> set rows. answer_of u q a \<and> C a) \<longleftrightarrow> (\<exists>a. find (answer_of u q) rows = Some a \<and> C a)"
  using invariant_find [OF assms] find_Some_mem by metis

lemma ubc_users_entry:
  assumes "get_users_by_company company_id d = Inr r" "e \<in> set (ubc_users r)"
  shows "\<exists>p \<in> set (profiles d). p_company_id p = Some company_id
           \<and> e = user_completion_of (company_questions company_id d) d p"
  using assms by (auto simp: get_users_by_company_def split: option.splits)

text \<open>
  Claim C2. For a user with a non-empty visible question set, in a store with at most one
  answer per (user, question) pair, \<^verbatim>\<open>completely_answered\<close> is true exactly when every
  visible question has an answer of the user that is a "cannot answer" (rating 0, blank
  text) or a substantive answer (rating other than 0, text not blank), and the answered
  count equals the number of visible questions. An answer with rating 0 and a text that is
  not blank makes it false.
\<close>

theorem completely_answered_iff:
  assumes "get_users_by_company company_id d = Inr r" and "e \<in> set (ubc_users r)"
    and "0 < uc_total_questions e" and "one_answer_per_pair (user_answers d)"
  shows "(uc_completely_answered e \<longleftrightarrow>
            (\<forall>q \<in> set (company_questions company_id d).
               \<exists>a \<in> set (user_answers d).
                 answer_of (uc_user_id e) (q_id q) a \<and> (cannot_answer a \<or> substantive a))
            \<and> uc_answered_count e = uc_total_questions e)
         \<and> (\<forall>q \<in> set (company_questions company_id d). \<forall>a \<in> set (user_answers d).
               answer_of (uc_user_id e) (q_id q) a \<and> ua_rating a = Some 0 \<and> \<not> blank (ua_answer a)
               \<longrightarrow> \<not> uc_completely_answered e)"
proof -
  let ?qs = "company_questions company_id d"
  obtain p where e: "e = user_completion_of ?qs d p"
    using ubc_users_entry [OF assms(1,2)] by blast
  let ?u = "p_id p"
  let ?ua = "[a \<leftarrow> user_answers d. ua_user_id a = Some ?u]"
  have u: "uc_user_id e = ?u" by (simp add: e user_completion_of_def Let_def)
  have pos: "0 < length ?qs" using assms(3) by (simp add: e user_completion_of_def Let_def)
  have flag: "uc_completely_answered e \<longleftrightarrow>
      all_complete ?ua ?qs \<and> uc_answered_count e = uc_total_questions e"
    using pos by (simp add: e user_completion_of_def Let_def)
  have ac: "all_complete ?ua ?qs \<longleftrightarrow>
      (\<forall>q \<in> set ?qs. \<exists>a \<in> set (user_answers d).
          answer_of ?u (q_id q) a \<and> (cannot_answer a \<or> substantive a))"
    unfolding all_complete_iff find_user_answers is_complete_iff
    using exists_answer_iff_find [OF assms(4), of ?u _ "\<lambda>a. cannot_answer a \<or> substantive a"]
    by simp
  have 1: "uc_completely_answered e \<longleftrightarrow>
            (\<forall>q \<in> set ?qs. \<exists>a \<in> set (user_answers d).
                 answer_of (uc_user_id e) (q_id q) a \<and> (cannot_answer a \<or> substantive a))
            \<and> uc_answered_count e = uc_total_questions e"
    using flag ac u by simp
  have 2: "\<not> uc_completely_answered e"
    if q: "q \<in> set ?qs" and a: "a \<in> set (user_answers d)"
      and k: "answer_of (uc_user_id e) (q_id q) a" "ua_rating a = Some 0" "\<not> blank (ua_answer a)"
    for q a
  proof
    assume "uc_completely_answered e"
    then obtain b where b: "b \<in> set (user_answers d)" "answer_of (uc_user_id e) (q_id q) b"
      "cannot_answer b \<or> substantive b"
      using 1 q by blast
    have "find (answer_of (uc_user_id e) (q_id q)) (user_answers d) = Some a"
      using invariant_find [OF assms(4) a k(1)] .
    moreover have "find (answer_of (uc_user_id e) (q_id q)) (user_answers d) = Some b"
      using invariant_find [OF assms(4) b(1,2)] .
    ultimately have "b = a" by simp
    then show False using b(3) k(2,3) by (auto simp: cannot_answer_def substantive_def)
  qed
  show ?thesis using 1 2 by blast
qed


theorem completely_answered_iff_witness:
  "(\<exists>r e. get_users_by_company 1 ex_db_complete = Inr r \<and> ubc_users r = [e]
       \<and> uc_user_id e = ''u1'' \<and> uc_total_questions e = 3 \<and> uc_answered_count e = 3
       \<and> uc_completion_percentage e = 100 \<and> uc_completely_answered e)
   \<and> (\<exists>r e. get_users_by_company 1 ex_db_rated_zero = Inr r \<and> ubc_users r = [e]
       \<and> uc_answered_count e = 3 \<and> \<not> uc_completely_answered e)"
proof -
  let ?d = ex_db_complete
  let ?e = "user_completion_of (company_questions 1 ?d) ?d ex_profile"
  let ?z = ex_db_rated_zero
  let ?f = "user_completion_of (company_questions 1 ?z) ?z ex_profile"
  obtain r where r: "get_users_by_company 1 ?d = Inr r" and us: "ubc_users r = [?e]"
    by (simp add: get_users_by_company_def ex_db_complete_def ex_defs)
  obtain r' where r': "get_users_by_company 1 ?z = Inr r'" and us': "ubc_users r' = [?f]"
    by (simp add: get_users_by_company_def ex_db_rated_zero_def ex_defs)
  have qs: "company_questions 1 ?d = [ex_question 1 1, ex_question 2 1, ex_question 3 2]"
    "company_questions 1 ?z = [ex_question 1 1, ex_question 2 1, ex_question 3 2]"
    by (simp_all add: company_questions_def company_or_global_sections_def ex_db_complete_def
        ex_db_rated_zero_def ex_defs)
  have vals: "uc_user_id ?e = ''u1''" "uc_total_questions ?e = 3" "uc_answered_count ?e = 3"
    "uc_completion_percentage ?e = 100" "uc_answered_count ?f = 3" "uc_total_questions ?f = 3"
    "uc_user_id ?f = ''u1''"
    by code_simp+
  have inv: "one_answer_per_pair (user_answers ?d)" "one_answer_per_pair (user_answers ?z)"
    by code_simp+
  have mem: "?e \<in> set (ubc_users r)" "?f \<in> set (ubc_users r')"
    by (simp_all add: us us')
  have pos: "0 < uc_total_questions ?e" "0 < uc_total_questions ?f"
    by (simp_all add: vals)
  note t = completely_answered_iff [OF r mem(1) pos(1) inv(1)]
  note t' = completely_answered_iff [OF r' mem(2) pos(2) inv(2)]
  have "\<forall>q \<in> set (company_questions 1 ?d). \<exists>a \<in> set (user_answers ?d).
          answer_of (uc_user_id ?e) (q_id q) a \<and> (cannot_answer a \<or> substantive a)"
    unfolding qs vals by code_simp
  then have yes: "uc_completely_answered ?e"
    using t vals by simp
  have "ex_question 3 2 \<in> set (company_questions 1 ?z)
      \<and> ex_answer 3 3 ''u1'' ''maybe'' (Some 0) \<in> set (user_answers ?z)
      \<and> answer_of (uc_user_id ?f) (q_id (ex_question 3 2)) (ex_answer 3 3 ''u1'' ''maybe'' (Some 0))
      \<and> ua_rating (ex_answer 3 3 ''u1'' ''maybe'' (Some 0)) = Some 0
      \<and> \<not> blank (ua_answer (ex_answer 3 3 ''u1'' ''maybe'' (Some 0)))"
    unfolding qs vals by code_simp
  then have no: "\<not> uc_completely_answered ?f"
    using t' by blast
  have A: "\<exists>r e. get_users_by_company 1 ?d = Inr r \<and> ubc_users r = [e]
       \<and> uc_user_id e = ''u1'' \<and> uc_total_questions e = 3 \<and> uc_answered_count e = 3
       \<and> uc_completion_percentage e = 100 \<and> uc_completely_answered e"
    by (intro exI [of _ r] exI [of _ ?e]) (simp add: r us vals yes)
  have B: "\<exists>r e. get_users_by_company 1 ?z = Inr r \<and> ubc_users r = [e]
       \<and> uc_answered_count e = 3 \<and> \<not> uc_completely_answered e"
    by (intro exI [of _ r'] exI [of _ ?f]) (simp add: r' us' vals no)
  show ?thesis using A B by (rule conjI)
qed


section \<open>Rounding errors of floats\<close>

lemma pow2_powi: "pow2 e = 2 powi e"
  by (simp add: pow2_def power_int_def power_inverse [symmetric] inverse_eq_divide power_one_over)

lemma pow2_pos: "0 < pow2 e"
  by (simp add: pow2_powi)

lemma pow2_add: "pow2 (a + b) = pow2 a * pow2 b"
  by (simp add: pow2_powi power_int_add)

lemma pow2_mono: "a \<le> b \<Longrightarrow> pow2 a \<le> pow2 b"
  by (simp add: pow2_powi power_int_increasing)

lemma pow2_nat: "0 \<le> e \<Longrightarrow> pow2 e = 2 ^ nat e"
  by (simp add: pow2_def)

lemma bitlen_rat_bounds:
  assumes "0 < (p::int)"
  shows "pow2 (bitlen p - 1) \<le> of_int p" "(of_int p :: rat) < pow2 (bitlen p)"
proof -
  have b: "2 ^ nat (bitlen p - 1) \<le> p" "p < 2 ^ nat (bitlen p)"
    using bitlen_bounds [OF assms] by simp_all
  have ge: "1 \<le> bitlen p" using assms by (auto simp: bitlen_alt_def)
  have "(of_int (2 ^ nat (bitlen p - 1)) :: rat) \<le> of_int p"
    using b(1) by (simp only: of_int_le_iff)
  then show "pow2 (bitlen p - 1) \<le> of_int p"
    using ge by (simp add: pow2_nat)
  have "(of_int p :: rat) < of_int (2 ^ nat (bitlen p))"
    using b(2) by (simp only: of_int_less_iff)
  then show "(of_int p :: rat) < pow2 (bitlen p)"
    using ge by (simp add: pow2_nat)
qed

lemma floor_log2_bounds:
  assumes "0 < x"
  shows "pow2 (floor_log2 x) \<le> x" "x < pow2 (floor_log2 x + 1)"
proof -
  obtain p q where pq: "quotient_of x = (p, q)" by (cases "quotient_of x")
  have q: "0 < q" using quotient_of_denom_pos [OF pq] .
  have x: "x = of_int p / of_int q" using quotient_of_div [OF pq] .
  have p: "0 < p" using assms q x by (simp add: zero_less_divide_iff)
  let ?e = "bitlen p - bitlen q"
  note bp = bitlen_rat_bounds [OF p]
  note bq = bitlen_rat_bounds [OF q]
  have qpos: "(0::rat) < of_int q" using q by simp
  have "x < pow2 (bitlen p) / pow2 (bitlen q - 1)"
  proof -
    have "x < pow2 (bitlen p) / of_int q"
      unfolding x using bp(2) qpos by (simp add: divide_strict_right_mono)
    also have "\<dots> \<le> pow2 (bitlen p) / pow2 (bitlen q - 1)"
      using bq(1) pow2_pos [of "bitlen p"] pow2_pos [of "bitlen q - 1"]
      by (simp add: frac_le)
    finally show ?thesis .
  qed
  also have "pow2 (bitlen p) / pow2 (bitlen q - 1) = pow2 (?e + 1)"
    using pow2_add [of "?e + 1" "bitlen q - 1"] pow2_pos [of "bitlen q - 1"]
    by (simp add: field_simps)
  finally have up: "x < pow2 (?e + 1)" .
  have "pow2 (bitlen p - 1) / pow2 (bitlen q) < x"
  proof -
    have "pow2 (bitlen p - 1) / pow2 (bitlen q) < pow2 (bitlen p - 1) / of_int q"
      using bq(2) qpos pow2_pos [of "bitlen p - 1"] by (simp add: divide_strict_left_mono)
    also have "\<dots> \<le> x"
      unfolding x using bp(1) qpos by (simp add: divide_right_mono)
    finally show ?thesis .
  qed
  moreover have "pow2 (bitlen p - 1) / pow2 (bitlen q) = pow2 (?e - 1)"
    using pow2_add [of "?e - 1" "bitlen q"] pow2_pos [of "bitlen q"]
    by (simp add: field_simps)
  ultimately have lo: "pow2 (?e - 1) < x" by simp
  have f: "floor_log2 x = (if pow2 ?e \<le> x then ?e else ?e - 1)"
    by (simp add: floor_log2_def pq)
  show "pow2 (floor_log2 x) \<le> x" using f lo by (auto simp: less_imp_le)
  show "x < pow2 (floor_log2 x + 1)" using f up by (auto simp: not_le)
qed

lemma round_half_even_error: "\<bar>of_int (round_half_even y) - y\<bar> \<le> 1 / 2"
proof -
  have "of_int \<lfloor>y\<rfloor> \<le> y" "y < of_int \<lfloor>y\<rfloor> + 1" by linarith+
  then show ?thesis by (auto simp: round_half_even_def Let_def)
qed

lemma binary64_error: "\<bar>binary64 x - x\<bar> \<le> \<bar>x\<bar> / 2 ^ 53 + 1 / 2 ^ 1075"
proof (cases "x = 0")
  case True
  then show ?thesis by (simp add: binary64_def)
next
  case False
  let ?fl = "floor_log2 \<bar>x\<bar>"
  let ?e = "max (?fl - 52) (- 1074)"
  let ?y = "x / pow2 ?e"
  have b: "binary64 x = of_int (round_half_even ?y) * pow2 ?e"
    using False by (simp add: binary64_def Let_def)
  have pe: "0 < pow2 ?e" by (rule pow2_pos)
  have "binary64 x - x = (of_int (round_half_even ?y) - ?y) * pow2 ?e"
    using pe by (simp add: b field_simps)
  then have "\<bar>binary64 x - x\<bar> = \<bar>of_int (round_half_even ?y) - ?y\<bar> * pow2 ?e"
    using pe by (simp add: abs_mult)
  also have "\<dots> \<le> 1 / 2 * pow2 ?e"
    using round_half_even_error [of ?y] pe by (simp add: mult_right_mono)
  finally have h: "\<bar>binary64 x - x\<bar> \<le> pow2 ?e / 2" by simp
  have "pow2 ?e \<le> pow2 (?fl - 52) + pow2 (- 1074)"
    using pow2_pos [of "?fl - 52"] pow2_pos [of "- 1074"] by (auto simp: max_def less_imp_le)
  moreover have "pow2 (?fl - 52) = pow2 ?fl * pow2 (- 52)"
    using pow2_add [of ?fl "- 52"] by simp
  moreover have "pow2 ?fl \<le> \<bar>x\<bar>"
    using floor_log2_bounds(1) [of "\<bar>x\<bar>"] False by simp
  moreover have "pow2 (- 52) = 1 / 2 ^ 52" "pow2 (- 1074) = 1 / 2 ^ 1074"
    by (simp_all add: pow2_def)
  ultimately have "pow2 ?e \<le> \<bar>x\<bar> / 2 ^ 52 + 1 / 2 ^ 1074"
    by (simp add: mult_right_mono)
  then show ?thesis using h by simp
qed

lemma binary64_error_small:
  assumes "\<bar>x\<bar> \<le> 128"
  shows "\<bar>binary64 x - x\<bar> \<le> 1 / 2 ^ 45"
proof -
  have "\<bar>x\<bar> / 2 ^ 53 \<le> 128 / 2 ^ 53" using assms by (simp add: divide_right_mono)
  moreover have "(1::rat) / 2 ^ 1075 \<le> 1 / 2 ^ 53"
    by (intro divide_left_mono power_increasing) simp_all
  ultimately show ?thesis using binary64_error [of x] by simp
qed


lemma completion_percentage_bound:
  assumes t: "0 < t" and a: "a \<le> t"
  shows "\<bar>completion_percentage a t - 100 * of_nat a / of_nat t\<bar> \<le> 1 / 20 + 1 / 10 ^ 11"
proof -
  define \<delta> :: rat where "\<delta> = 1 / 2 ^ 45"
  have \<delta>: "0 \<le> \<delta>" "\<delta> \<le> 1 / 100" "102 * \<delta> \<le> 1 / 10 ^ 11"
    by (simp_all add: \<delta>_def)
  let ?x = "(of_nat a / of_nat t :: rat)"
  let ?x1 = "binary64 ?x"
  let ?x2 = "binary64 (?x1 * 100)"
  let ?r = "(of_int (round_half_even (?x2 * 10)) / 10 :: rat)"
  have p: "completion_percentage a t = binary64 ?r"
    using t by (simp add: completion_percentage_def py_round_def)
  have x: "0 \<le> ?x" "?x \<le> 1" using t a by simp_all
  have "\<bar>?x\<bar> \<le> 128" using x by linarith
  then have e1: "\<bar>?x1 - ?x\<bar> \<le> \<delta>"
    unfolding \<delta>_def by (rule binary64_error_small)
  have "\<bar>?x1 * 100\<bar> \<le> 128" using x e1 \<delta> by linarith
  then have e2: "\<bar>?x2 - ?x1 * 100\<bar> \<le> \<delta>"
    unfolding \<delta>_def by (rule binary64_error_small)
  have "\<bar>of_int (round_half_even (?x2 * 10)) - ?x2 * 10\<bar> \<le> 1 / 2"
    by (rule round_half_even_error)
  then have e3: "\<bar>?r - ?x2\<bar> \<le> 1 / 20"
    by linarith
  have "\<bar>?r\<bar> \<le> 128" using x e1 e2 e3 \<delta> by linarith
  then have e4: "\<bar>binary64 ?r - ?r\<bar> \<le> \<delta>"
    unfolding \<delta>_def by (rule binary64_error_small)
  have "\<bar>binary64 ?r - 100 * ?x\<bar> \<le> 1 / 20 + 102 * \<delta>"
    using e1 e2 e3 e4 by linarith
  then have "\<bar>binary64 ?r - 100 * ?x\<bar> \<le> 1 / 20 + 1 / 10 ^ 11"
    using \<delta>(3) by linarith
  then show ?thesis by (simp add: p)
qed

lemma answered_count_eq:
  assumes d: "distinct (map q_id qs)"
  shows "length [qid \<leftarrow> remdups (map ua_question_id ua). qid \<in> set (map (\<lambda>q. Some (q_id q)) qs)]
           = length [q \<leftarrow> qs. \<exists>a \<in> set ua. ua_question_id a = Some (q_id q)]"
proof -
  let ?L1 = "[qid \<leftarrow> remdups (map ua_question_id ua). qid \<in> set (map (\<lambda>q. Some (q_id q)) qs)]"
  let ?L2 = "[q \<leftarrow> qs. \<exists>a \<in> set ua. ua_question_id a = Some (q_id q)]"
  have d1: "distinct ?L1" by simp
  have "distinct (map q_id ?L2)" using d by (rule distinct_map_filter)
  then have d2: "distinct (map (\<lambda>q. Some (q_id q)) ?L2)"
    by (simp add: distinct_map inj_on_def)
  have "set ?L1 = set (map (\<lambda>q. Some (q_id q)) ?L2)"
    by (auto simp: image_iff) metis
  then have "card (set ?L1) = card (set (map (\<lambda>q. Some (q_id q)) ?L2))" by simp
  then have "length ?L1 = length (map (\<lambda>q. Some (q_id q)) ?L2)"
    using distinct_card [OF d1] distinct_card [OF d2] by simp
  then show ?thesis by simp
qed


section \<open>The completion percentage\<close>

lemma distinct_company_questions:
  "distinct (map q_id (questions d)) \<Longrightarrow> distinct (map q_id (company_questions company_id d))"
  by (simp add: company_questions_def Let_def distinct_map_filter)

lemma user_completion_of_answered_count:
  assumes "distinct (map q_id qs)"
  shows "uc_answered_count (user_completion_of qs d p)
           = length [q \<leftarrow> qs. \<exists>a \<in> set (user_answers d). answer_of (p_id p) (q_id q) a]"
proof -
  let ?ua = "[a \<leftarrow> user_answers d. ua_user_id a = Some (p_id p)]"
  have "uc_answered_count (user_completion_of qs d p)
      = length [qid \<leftarrow> remdups (map ua_question_id ?ua). qid \<in> set (map (\<lambda>q. Some (q_id q)) qs)]"
    by (simp add: user_completion_of_def Let_def)
  also have "\<dots> = length [q \<leftarrow> qs. \<exists>a \<in> set ?ua. ua_question_id a = Some (q_id q)]"
    using assms by (rule answered_count_eq)
  also have "[q \<leftarrow> qs. \<exists>a \<in> set ?ua. ua_question_id a = Some (q_id q)]
      = [q \<leftarrow> qs. \<exists>a \<in> set (user_answers d). answer_of (p_id p) (q_id q) a]"
    by (rule filter_cong) (auto simp: answer_of_def)
  finally show ?thesis .
qed

lemma user_completion_of_fields:
  "uc_user_id (user_completion_of qs d p) = p_id p"
  "uc_email (user_completion_of qs d p) = p_email p"
  "uc_name (user_completion_of qs d p) = p_name p"
  "uc_company_id (user_completion_of qs d p) = p_company_id p"
  "uc_total_questions (user_completion_of qs d p) = length qs"
  "uc_completion_percentage (user_completion_of qs d p)
     = completion_percentage (uc_answered_count (user_completion_of qs d p)) (length qs)"
  "uc_answered_count (user_completion_of qs d p) \<noteq> length qs
     \<Longrightarrow> \<not> uc_completely_answered (user_completion_of qs d p)"
  by (simp_all add: user_completion_of_def Let_def)

text \<open>
  Claim C6, as the code has it. For every user of the result, \<^verbatim>\<open>total_questions\<close> is
  the number of visible questions and \<^verbatim>\<open>answered_count\<close> the number of visible questions
  for which the user has an answer row, whatever the row contains. The percentage is 0
  when there is no visible question; otherwise it is the float
  \<^verbatim>\<open>(answered_count / total_questions) * 100\<close> rounded to one decimal, which is within
  0.05 (and a float error below \<open>10\<^sup>-\<^sup>1\<^sup>1\<close>) of the exact percentage.
\<close>

theorem completion_percentage_value:
  assumes "get_users_by_company company_id d = Inr r" and "e \<in> set (ubc_users r)"
    and "distinct (map q_id (questions d))"
  shows "uc_total_questions e = length (company_questions company_id d)
    \<and> uc_answered_count e
        = length [q \<leftarrow> company_questions company_id d.
                    \<exists>a \<in> set (user_answers d). answer_of (uc_user_id e) (q_id q) a]
    \<and> (uc_total_questions e = 0 \<longrightarrow> uc_completion_percentage e = 0)
    \<and> (0 < uc_total_questions e \<longrightarrow>
          uc_completion_percentage e
            = py_round (binary64 (binary64 (of_nat (uc_answered_count e)
                                              / of_nat (uc_total_questions e)) * 100)) 1
        \<and> \<bar>uc_completion_percentage e
             - 100 * of_nat (uc_answered_count e) / of_nat (uc_total_questions e)\<bar>
            \<le> 1 / 20 + 1 / 10 ^ 11)"
proof -
  let ?qs = "company_questions company_id d"
  obtain p where e: "e = user_completion_of ?qs d p"
    using ubc_users_entry [OF assms(1,2)] by blast
  have 1: "uc_total_questions e = length ?qs" by (simp add: e user_completion_of_fields)
  have 2: "uc_answered_count e
      = length [q \<leftarrow> ?qs. \<exists>a \<in> set (user_answers d). answer_of (uc_user_id e) (q_id q) a]"
    unfolding e user_completion_of_fields
    using distinct_company_questions [OF assms(3)] by (rule user_completion_of_answered_count)
  have pct: "uc_completion_percentage e
      = completion_percentage (uc_answered_count e) (uc_total_questions e)"
    by (simp add: e user_completion_of_fields)
  have 3: "uc_completion_percentage e = 0" if "uc_total_questions e = 0"
    using that by (simp add: pct completion_percentage_def)
  have le: "uc_answered_count e \<le> uc_total_questions e"
    unfolding 1 2 by (rule length_filter_le)
  have 4: "uc_completion_percentage e
            = py_round (binary64 (binary64 (of_nat (uc_answered_count e)
                                              / of_nat (uc_total_questions e)) * 100)) 1
        \<and> \<bar>uc_completion_percentage e
             - 100 * of_nat (uc_answered_count e) / of_nat (uc_total_questions e)\<bar>
            \<le> 1 / 20 + 1 / 10 ^ 11"
    if "0 < uc_total_questions e"
    using that completion_percentage_bound [OF that le]
    by (simp add: pct completion_percentage_def)
  show ?thesis using 1 2 3 4 by blast
qed

theorem completion_percentage_value_witness:
  "\<exists>r e. get_users_by_company 1 ex_db_partial = Inr r \<and> ubc_users r = [e]
     \<and> distinct (map q_id (questions ex_db_partial))
     \<and> uc_total_questions e = 3 \<and> uc_answered_count e = 2
     \<and> uc_completion_percentage e = binary64 (667 / 10)
     \<and> \<bar>uc_completion_percentage e - 200 / 3\<bar> \<le> 1 / 20 + 1 / 10 ^ 11
     \<and> \<not> uc_completely_answered e"
proof -
  let ?d = ex_db_partial
  let ?e = "user_completion_of (company_questions 1 ?d) ?d ex_profile"
  obtain r where r: "get_users_by_company 1 ?d = Inr r" and us: "ubc_users r = [?e]"
    by (simp add: get_users_by_company_def ex_db_partial_def ex_defs)
  have dist: "distinct (map q_id (questions ?d))" by code_simp
  have mem: "?e \<in> set (ubc_users r)" by (simp add: us)
  note t = completion_percentage_value [OF r mem dist]
  have u: "uc_user_id ?e = ''u1''" by code_simp
  have "length (company_questions 1 ?d) = 3" by code_simp
  then have 1: "uc_total_questions ?e = 3" using t by simp
  have "length [q \<leftarrow> company_questions 1 ?d. \<exists>a \<in> set (user_answers ?d). answer_of ''u1'' (q_id q) a] = 2"
    by code_simp
  then have 2: "uc_answered_count ?e = 2" using t u by simp
  have v: "py_round (binary64 (binary64 (of_nat 2 / of_nat 3) * 100)) 1 = binary64 (667 / 10)"
    by code_simp
  have pos: "0 < uc_total_questions ?e" by (simp add: 1)
  have t4: "uc_completion_percentage ?e
            = py_round (binary64 (binary64 (of_nat (uc_answered_count ?e)
                                              / of_nat (uc_total_questions ?e)) * 100)) 1"
    and t5: "\<bar>uc_completion_percentage ?e
             - 100 * of_nat (uc_answered_count ?e) / of_nat (uc_total_questions ?e)\<bar>
            \<le> 1 / 20 + 1 / 10 ^ 11"
    using t pos by blast+
  have 3: "uc_completion_percentage ?e = binary64 (667 / 10)"
    using t4 v by (simp add: 1 2)
  have 4: "\<bar>uc_completion_percentage ?e - 200 / 3\<bar> \<le> 1 / 20 + 1 / 10 ^ 11"
    using t5 by (simp add: 1 2)
  have 5: "\<not> uc_completely_answered ?e" by code_simp
  show ?thesis
    by (intro exI [of _ r] exI [of _ ?e] conjI r us dist 1 2 3 4 5)
qed


end
